theory Spec2Isabelle
  imports Main "HOL-Library.Word"
begin

unbundle bit_operations_syntax

section \<open>Table store (table.c)\<close>

subsection \<open>Data model\<close>

type_synonym ecs_entity_t = "64 word"
type_synonym ecs_type_t = nat

text \<open>
  One element of a column vector. Column 0 stores entity handles; the data columns store
  raw component bytes. An element appended by a vector growth and not yet written is
  \<open>Uninit\<close>.
\<close>

datatype elem = Uninit | Handle ecs_entity_t | Raw "nat list"

text \<open>
  \<open>ecs_table_column_t\<close>: the element size and the data vector. A NULL vector and an
  empty vector both have count 0 and are the empty list.
\<close>

record ecs_table_column_t =
  csize :: nat
  cdata :: "elem list"

record ecs_row_t =
  row_type_id :: ecs_type_t
  row_index :: "32 word"

text \<open>
  \<open>ecs_table_t\<close>. The field \<open>columns\<close> is a pointer to an array of columns: it is an
  address into the store of column sets kept in the world, so that the comparison
  \<open>table->columns == columns\<close> of the source is a comparison of addresses.
\<close>

record ecs_table_t =
  ttype :: "ecs_entity_t list"
  type_id :: ecs_type_t
  columns :: nat
  frame_systems :: "ecs_entity_t list"
  flags :: "32 word"

text \<open>
  The part of \<open>ecs_world_t\<close> the table store reads and writes. \<open>colsets\<close> is the store
  of column arrays (the table's primary set and the per-stage shadow sets), by address.
  \<open>activations\<close> records the calls of \<open>ecs_system_activate_table\<close> in order.
\<close>

record ecs_world_t =
  in_progress :: bool
  should_resolve :: bool
  colsets :: "nat \<Rightarrow> ecs_table_column_t list"
  entity_index :: "ecs_entity_t \<rightharpoonup> ecs_row_t"
  prefab_index :: "ecs_type_t \<rightharpoonup> ecs_entity_t"
  activations :: "(ecs_entity_t \<times> ecs_type_t \<times> bool) list"

text \<open>
  The error kinds of the fatal assertions. \<open>ECS_NULL_DEREFERENCE\<close> is not an error kind
  of the repository: it stands for the crash of a read through a null pointer.
\<close>

datatype ecs_error =
  ECS_OUT_OF_MEMORY | ECS_MORE_THAN_ONE_PREFAB | ECS_INVALID_HANDLE | ECS_INTERNAL_ERROR
  | ECS_NULL_DEREFERENCE

subsection \<open>Vector primitives\<close>

text \<open>
  What the allocator does when one vector is grown: it fails, it extends the vector
  where it is, or it moves the vector to a new address. The source observes a move by
  comparing the vector pointer before and after the call. \<open>ecs_table_insert\<close> and
  \<open>ecs_table_grow\<close> grow each column at most once, so the allocator's behaviour during
  one call is a function of the column index.
\<close>

datatype alloc = OutOfMemory | InPlace | Moved

text \<open>
  Modelled from the spec: \<open>ecs_vector_add\<close> is not under src/. It appends one
  uninitialised element and returns a pointer to it, or NULL on allocation failure.
\<close>

definition ecs_vector_add :: "alloc \<Rightarrow> elem list \<Rightarrow> elem list option" where
  "ecs_vector_add a v = (if a = OutOfMemory then None else Some (v @ [Uninit]))"

text \<open>
  Modelled from the spec: \<open>ecs_vector_addn\<close> is not under src/. It appends \<open>n\<close>
  uninitialised elements and returns a pointer to the first of them, or NULL on
  allocation failure.
\<close>

definition ecs_vector_addn :: "alloc \<Rightarrow> elem list \<Rightarrow> nat \<Rightarrow> elem list option" where
  "ecs_vector_addn a v n = (if a = OutOfMemory then None else Some (v @ replicate n Uninit))"

text \<open>
  Modelled from the spec: \<open>ecs_vector_remove_index\<close> is not under src/. The last
  element replaces the target and the length is decremented.
\<close>

definition ecs_vector_remove_index :: "elem list \<Rightarrow> nat \<Rightarrow> elem list" where
  "ecs_vector_remove_index v i = butlast (v[i := last v])"

text \<open>Modelled from the spec: \<open>ecs_vector_remove_last\<close> is not under src/.\<close>

definition ecs_vector_remove_last :: "elem list \<Rightarrow> elem list" where
  "ecs_vector_remove_last v = butlast v"

text \<open>Reading an entity id out of column 0. Insert and grow only ever store handles there.\<close>

fun entity_of :: "elem \<Rightarrow> ecs_entity_t" where
  "entity_of (Handle e) = e"
| "entity_of _ = 0"

subsection \<open>Activation and reallocation notices\<close>

text \<open>
  Modelled from the spec: \<open>ecs_system_activate_table\<close> is not under src/. The call is
  recorded in the world.
\<close>

definition ecs_system_activate_table ::
  "ecs_world_t \<Rightarrow> ecs_entity_t \<Rightarrow> ecs_table_t \<Rightarrow> bool \<Rightarrow> ecs_world_t" where
  "ecs_system_activate_table w system t activate =
     w\<lparr>activations := activations w @ [(system, type_id t, activate)]\<rparr>"

definition activate_table ::
  "ecs_world_t \<Rightarrow> ecs_table_t \<Rightarrow> ecs_entity_t \<Rightarrow> bool \<Rightarrow> ecs_world_t" where
  "activate_table w t system activate =
     (if system \<noteq> 0 then ecs_system_activate_table w system t activate
      else foldl (\<lambda>w' s. ecs_system_activate_table w' s t activate) w (frame_systems t))"

definition notify_systems_of_realloc :: "ecs_world_t \<Rightarrow> ecs_table_t \<Rightarrow> ecs_world_t" where
  "notify_systems_of_realloc w t = w\<lparr>should_resolve := True\<rparr>"

subsection \<open>Insert\<close>

text \<open>
  The loop of \<open>ecs_table_insert\<close> over the data columns \<open>1 .. column_count\<close>. The
  columns written before a failing allocation stay written. The result is the column
  array and, unless an allocation failed, the \<open>reallocd\<close> flag.
\<close>

fun insert_columns ::
  "(nat \<Rightarrow> alloc) \<Rightarrow> nat list \<Rightarrow> ecs_table_column_t list \<Rightarrow> bool
     \<Rightarrow> ecs_table_column_t list \<times> bool option" where
  "insert_columns al [] cols reallocd = (cols, Some reallocd)"
| "insert_columns al (i # is) cols reallocd =
     (if csize (cols ! i) \<noteq> 0 then
        (case ecs_vector_add (al i) (cdata (cols ! i)) of
           None \<Rightarrow> (cols, None)
         | Some v \<Rightarrow>
             insert_columns al is (cols[i := (cols ! i)\<lparr>cdata := v\<rparr>])
               (if al i = Moved then True else reallocd))
      else insert_columns al is cols reallocd)"

definition ecs_table_insert ::
  "(nat \<Rightarrow> alloc) \<Rightarrow> ecs_world_t \<Rightarrow> ecs_table_t \<Rightarrow> nat \<Rightarrow> ecs_entity_t
     \<Rightarrow> ecs_world_t \<times> 32 word" where
  "ecs_table_insert al w t cp entity =
     (let cols = colsets w cp;
          column_count = length (ttype t)
      in case ecs_vector_add (al 0) (cdata (cols ! 0)) of
           None \<Rightarrow> (w, - 1)
         | Some v0 \<Rightarrow>
             (let v0' = v0[length v0 - 1 := Handle entity];
                  cols1 = cols[0 := (cols ! 0)\<lparr>cdata := v0'\<rparr>]
              in case insert_columns al [1 ..< column_count + 1] cols1 False of
                   (cols2, None) \<Rightarrow> (w\<lparr>colsets := (colsets w)(cp := cols2)\<rparr>, - 1)
                 | (cols2, Some reallocd) \<Rightarrow>
                     (let w1 = w\<lparr>colsets := (colsets w)(cp := cols2)\<rparr>;
                          index = (of_nat (length (cdata (cols2 ! 0))) :: 32 word) - 1;
                          w2 = (if \<not> in_progress w1 \<and> index = 0
                                then activate_table w1 t 0 True else w1);
                          w3 = (if reallocd \<and> columns t = cp
                                then notify_systems_of_realloc w2 t else w2)
                      in (w3, index + 1))))"

subsection \<open>Delete\<close>

text \<open>The two loops of \<open>ecs_table_delete\<close> over the data columns.\<close>

fun delete_move_columns ::
  "nat list \<Rightarrow> nat \<Rightarrow> ecs_table_column_t list \<Rightarrow> ecs_table_column_t list" where
  "delete_move_columns [] index cols = cols"
| "delete_move_columns (i # is) index cols =
     (if csize (cols ! i) \<noteq> 0 then
        delete_move_columns is index
          (cols[i := (cols ! i)\<lparr>cdata := ecs_vector_remove_index (cdata (cols ! i)) index\<rparr>])
      else delete_move_columns is index cols)"

fun delete_last_columns ::
  "nat list \<Rightarrow> ecs_table_column_t list \<Rightarrow> ecs_table_column_t list" where
  "delete_last_columns [] cols = cols"
| "delete_last_columns (i # is) cols =
     (if csize (cols ! i) \<noteq> 0 then
        delete_last_columns is
          (cols[i := (cols ! i)\<lparr>cdata := ecs_vector_remove_last (cdata (cols ! i))\<rparr>])
      else delete_last_columns is cols)"

text \<open>
  \<open>index\<close> is an \<open>int32_t\<close>, \<open>count\<close> a \<open>uint32_t\<close>: the comparisons
  \<open>index <= count\<close> and \<open>index != count\<close> convert the index to unsigned, which is the
  order and equality of 32 bit words. The two assertions are fatal.
\<close>

definition ecs_table_delete ::
  "ecs_world_t \<Rightarrow> ecs_table_t \<Rightarrow> 32 word \<Rightarrow> ecs_error + ecs_world_t" where
  "ecs_table_delete w t index0 =
     (let cols = colsets w (columns t);
          entity_column = cdata (cols ! 0);
          count0 = (of_nat (length entity_column) :: 32 word);
          index1 = (if sint index0 < 0 then index0 * (- 1) else index0);
          index = index1 - 1
      in if count0 = 0 then Inl ECS_INTERNAL_ERROR
         else
           (let count = count0 - 1
            in if \<not> index \<le> count then Inl ECS_INTERNAL_ERROR
               else
                 (let column_last = length (ttype t) + 1;
                      w1 =
                        (if index \<noteq> count then
                           (let to_move = entity_column ! unat count;
                                entities = entity_column[unat index := to_move];
                                cols1 = cols[0 := (cols ! 0)\<lparr>cdata := entities\<rparr>];
                                cols2 = delete_move_columns [1 ..< column_last] (unat index) cols1;
                                row = \<lparr>row_type_id = type_id t, row_index = index + 1\<rparr>;
                                ei = (entity_index w)(entity_of to_move \<mapsto> row);
                                cols3 = cols2[0 := (cols2 ! 0)
                                          \<lparr>cdata := ecs_vector_remove_last (cdata (cols2 ! 0))\<rparr>]
                            in w\<lparr>colsets := (colsets w)(columns t := cols3),
                                 entity_index := ei\<rparr>)
                         else
                           (let cols1 = cols[0 := (cols ! 0)
                                          \<lparr>cdata := ecs_vector_remove_last entity_column\<rparr>];
                                cols2 = delete_last_columns [1 ..< column_last] cols1
                            in w\<lparr>colsets := (colsets w)(columns t := cols2)\<rparr>))
                  in Inr (if \<not> in_progress w1 \<and> count = 0
                          then activate_table w1 t 0 False else w1))))"

subsection \<open>Grow\<close>

text \<open>
  The loop of \<open>ecs_table_grow\<close> over the data columns. Unlike the loop of insert it does
  not test the element size: every column is grown by \<open>count\<close> elements.
\<close>

fun grow_columns ::
  "(nat \<Rightarrow> alloc) \<Rightarrow> nat \<Rightarrow> nat list \<Rightarrow> ecs_table_column_t list \<Rightarrow> bool
     \<Rightarrow> ecs_table_column_t list \<times> bool option" where
  "grow_columns al n [] cols reallocd = (cols, Some reallocd)"
| "grow_columns al n (i # is) cols reallocd =
     (case ecs_vector_addn (al i) (cdata (cols ! i)) n of
        None \<Rightarrow> (cols, None)
      | Some v \<Rightarrow>
          grow_columns al n is (cols[i := (cols ! i)\<lparr>cdata := v\<rparr>])
            (if al i = Moved then True else reallocd))"

definition ecs_table_grow ::
  "(nat \<Rightarrow> alloc) \<Rightarrow> ecs_world_t \<Rightarrow> ecs_table_t \<Rightarrow> nat \<Rightarrow> nat \<Rightarrow> ecs_entity_t
     \<Rightarrow> ecs_world_t \<times> 32 word" where
  "ecs_table_grow al w t cp count first_entity =
     (let cols = colsets w cp;
          column_count = length (ttype t)
      in case ecs_vector_addn (al 0) (cdata (cols ! 0)) count of
           None \<Rightarrow> (w, - 1)
         | Some v0 \<Rightarrow>
             (let v0' = take (length v0 - count) v0 @
                          map (\<lambda>i. Handle (first_entity + of_nat i)) [0 ..< count];
                  cols1 = cols[0 := (cols ! 0)\<lparr>cdata := v0'\<rparr>]
              in case grow_columns al count [1 ..< column_count + 1] cols1 False of
                   (cols2, None) \<Rightarrow> (w\<lparr>colsets := (colsets w)(cp := cols2)\<rparr>, - 1)
                 | (cols2, Some reallocd) \<Rightarrow>
                     (let w1 = w\<lparr>colsets := (colsets w)(cp := cols2)\<rparr>;
                          row_count = (of_nat (length (cdata (cols2 ! 0))) :: 32 word);
                          w2 = (if \<not> in_progress w1 \<and> row_count = of_nat count
                                then activate_table w1 t 0 True else w1);
                          w3 = (if reallocd \<and> columns t = cp
                                then notify_systems_of_realloc w2 t else w2)
                      in (w3, row_count - of_nat count + 1))))"

text \<open>
  The storage invariant: every data column of non-zero element size is as long as
  column 0.
\<close>

definition cols_inv :: "ecs_table_column_t list \<Rightarrow> bool" where
  "cols_inv cols =
     list_all (\<lambda>c. csize c = 0 \<or> length (cdata c) = length (cdata (cols ! 0))) (tl cols)"

text \<open>
  Some allocation of one insert fails: the growth of column 0, or the growth of a data
  column of non-zero element size.
\<close>

definition insert_oom :: "(nat \<Rightarrow> alloc) \<Rightarrow> ecs_table_t \<Rightarrow> ecs_table_column_t list \<Rightarrow> bool" where
  "insert_oom al t cols =
     (al 0 = OutOfMemory \<or>
      (\<exists>i\<in>set [1 ..< length (ttype t) + 1]. csize (cols ! i) \<noteq> 0 \<and> al i = OutOfMemory))"

text \<open>The column array of insert after the entity id was stored in column 0.\<close>

definition insert_cols1 :: "ecs_table_column_t list \<Rightarrow> ecs_entity_t \<Rightarrow> ecs_table_column_t list" where
  "insert_cols1 cols e = cols[0 := (cols ! 0)\<lparr>cdata := cdata (cols ! 0) @ [Handle e]\<rparr>]"

text \<open>
  A table of two components, the first of element size 4 and the second a tag, with one
  registered system, in a world that is not in progress. Address 0 holds the table's
  own columns.
\<close>

definition t_ab :: ecs_table_t where
  "t_ab = \<lparr>ttype = [10, 11], type_id = 1, columns = 0, frame_systems = [7], flags = 0\<rparr>"

definition w_ab :: ecs_world_t where
  "w_ab = \<lparr>in_progress = False, should_resolve = False,
           colsets = (\<lambda>a. if a = 0
                           then [\<lparr>csize = 8, cdata = []\<rparr>, \<lparr>csize = 4, cdata = []\<rparr>,
                                 \<lparr>csize = 0, cdata = []\<rparr>]
                           else []),
           entity_index = Map.empty, prefab_index = Map.empty, activations = []\<rparr>"

text \<open>Some allocation of one grow fails: every column is grown, whatever its size.\<close>

definition grow_oom :: "(nat \<Rightarrow> alloc) \<Rightarrow> ecs_table_t \<Rightarrow> bool" where
  "grow_oom al t =
     (al 0 = OutOfMemory \<or> (\<exists>i\<in>set [1 ..< length (ttype t) + 1]. al i = OutOfMemory))"

text \<open>The column array of grow after the entity ids were stored in column 0.\<close>

definition grow_cols1 ::
  "ecs_table_column_t list \<Rightarrow> nat \<Rightarrow> ecs_entity_t \<Rightarrow> ecs_table_column_t list" where
  "grow_cols1 cols n first_entity =
     cols[0 := (cols ! 0)\<lparr>cdata := cdata (cols ! 0) @
                 map (\<lambda>i. Handle (first_entity + of_nat i)) [0 ..< n]\<rparr>]"

text \<open>An allocator that moves every vector it grows.\<close>

definition al_moved :: "nat \<Rightarrow> alloc" where
  "al_moved i = Moved"

text \<open>A table whose only component is a tag: its column array is column 0 and one
  zero-size column.\<close>

definition t_tag :: ecs_table_t where
  "t_tag = \<lparr>ttype = [11], type_id = 2, columns = 0, frame_systems = [], flags = 0\<rparr>"

definition w_tag :: ecs_world_t where
  "w_tag = \<lparr>in_progress = False, should_resolve = False,
            colsets = (\<lambda>a. if a = 0 then [\<lparr>csize = 8, cdata = []\<rparr>, \<lparr>csize = 0, cdata = []\<rparr>]
                            else []),
            entity_index = Map.empty, prefab_index = Map.empty, activations = []\<rparr>"

text \<open>
  A world in progress: address 0 holds the primary columns of \<open>t_ab\<close>, address 1 the
  shadow columns of the stage for the same type.
\<close>

definition w_stage :: ecs_world_t where
  "w_stage = \<lparr>in_progress = True, should_resolve = False,
              colsets = (\<lambda>a. if a = 0 \<or> a = 1
                              then [\<lparr>csize = 8, cdata = []\<rparr>, \<lparr>csize = 4, cdata = []\<rparr>,
                                    \<lparr>csize = 0, cdata = []\<rparr>]
                              else []),
              entity_index = Map.empty, prefab_index = Map.empty, activations = []\<rparr>"

text \<open>
  One column after the swap-with-last removal of the row at 0-based position \<open>k\<close>:
  the last element overwrites position \<open>k\<close> and the vector loses its last element.
\<close>

definition delete_col :: "nat \<Rightarrow> ecs_table_column_t \<Rightarrow> ecs_table_column_t" where
  "delete_col k c = c\<lparr>cdata := butlast ((cdata c)[k := last (cdata c)])\<rparr>"

text \<open>The column array after the removal of the row at 0-based position \<open>k\<close>:
  column 0 and the data columns of non-zero size lose that row, the zero-size columns
  are as before.\<close>

definition delete_cols :: "nat \<Rightarrow> ecs_table_column_t list \<Rightarrow> ecs_table_column_t list" where
  "delete_cols k cols =
     map (\<lambda>j. if j = 0 \<or> csize (cols ! j) \<noteq> 0 then delete_col k (cols ! j) else cols ! j)
       [0 ..< length cols]"

text \<open>Zero-size (tag) columns hold no data.\<close>

definition tags_empty :: "ecs_table_column_t list \<Rightarrow> bool" where
  "tags_empty cols = list_all (\<lambda>c. csize c = 0 \<longrightarrow> cdata c = []) (tl cols)"

text \<open>An allocator that grows column 0 and then fails.\<close>

definition al_fail_after_0 :: "nat \<Rightarrow> alloc" where
  "al_fail_after_0 i = (if i = 0 then Moved else OutOfMemory)"

text \<open>The table \<open>t_ab\<close> with two rows, for the entities 1 and 2.\<close>

definition w_two :: ecs_world_t where
  "w_two = \<lparr>in_progress = False, should_resolve = False,
            colsets = (\<lambda>a. if a = 0
                            then [\<lparr>csize = 8, cdata = [Handle 1, Handle 2]\<rparr>,
                                  \<lparr>csize = 4, cdata = [Raw [1], Raw [2]]\<rparr>,
                                  \<lparr>csize = 0, cdata = []\<rparr>]
                            else []),
            entity_index = [1 \<mapsto> \<lparr>row_type_id = 1, row_index = 1\<rparr>,
                            2 \<mapsto> \<lparr>row_type_id = 1, row_index = 2\<rparr>],
            prefab_index = Map.empty, activations = []\<rparr>"

text \<open>
  \<open>cols'\<close> is \<open>cols\<close> with one element less in column 0 and in every data column of
  non-zero size, and with the zero-size columns as they were.
\<close>

definition rows_dropped :: "ecs_table_column_t list \<Rightarrow> ecs_table_column_t list \<Rightarrow> bool" where
  "rows_dropped cols cols' =
     (length cols' = length cols \<and>
      (\<forall>j<length cols.
         csize (cols' ! j) = csize (cols ! j) \<and>
         (if j = 0 \<or> csize (cols ! j) \<noteq> 0
          then length (cdata (cols' ! j)) = length (cdata (cols ! j)) - 1
          else cols' ! j = cols ! j)))"

subsection \<open>Type evaluation (prefab detection)\<close>

















section \<open>Query matcher (query.c)\<close>

subsection \<open>Data model\<close>

datatype ecs_signature_from_kind_t =
  EcsFromSelf | EcsFromOwned | EcsFromShared | EcsFromContainer | EcsFromSystem
  | EcsFromEmpty | EcsFromEntity | EcsCascade

datatype ecs_signature_op_kind_t = EcsOperAnd | EcsOperOr | EcsOperNot | EcsOperOptional

text \<open>
  \<open>ecs_signature_column_t\<close>. In the source \<open>is\<close> is a union of \<open>component\<close> and
  \<open>type\<close>; the two members are the fields \<open>sc_component\<close> and \<open>sc_type\<close>.
\<close>

record ecs_signature_column_t =
  sc_from :: ecs_signature_from_kind_t
  sc_op :: ecs_signature_op_kind_t
  sc_component :: ecs_entity_t
  sc_type :: "ecs_entity_t list"
  sc_source :: ecs_entity_t

record ecs_signature_t =
  sig_columns :: "ecs_signature_column_t list"
  match_disabled :: bool
  match_prefab :: bool
  has_refs :: bool
  cascade_by :: nat
  owned :: bool

record ecs_reference_t =
  ref_entity :: ecs_entity_t
  ref_component :: ecs_entity_t
  cached_ptr :: "nat option"

text \<open>
  \<open>ecs_matched_table_t\<close>: the table, the plan slots \<open>columns[k]\<close> (signed 32 bit
  integers), the resolved components and the reference list.
\<close>

record ecs_matched_table_t =
  mt_table :: ecs_table_t
  mt_columns :: "int list"
  mt_components :: "ecs_entity_t list"
  mt_references :: "ecs_reference_t list"

text \<open>\<open>ecs_query_t\<close>. An aggregate type that is NULL in the source is \<open>None\<close>.\<close>

record ecs_query_t =
  sig :: ecs_signature_t
  tables :: "ecs_matched_table_t list"
  system :: ecs_entity_t
  and_from_self :: "ecs_entity_t list option"
  and_from_owned :: "ecs_entity_t list option"
  and_from_shared :: "ecs_entity_t list option"
  and_from_system :: "ecs_entity_t list option"
  not_from_self :: "ecs_entity_t list option"
  not_from_owned :: "ecs_entity_t list option"
  not_from_shared :: "ecs_entity_t list option"
  not_from_component :: "ecs_entity_t list option"

subsection \<open>Collaborators\<close>

text \<open>
  What the matcher reads from the world through functions that are not under src/. They
  are taken as they come:
  \<^item> the masks \<open>ECS_CHILDOF\<close> and \<open>ECS_ENTITY_MASK\<close> and the ids of the \<open>EcsDisabled\<close>
    and \<open>EcsPrefab\<close> components;
  \<^item> \<open>component_size c\<close>: the \<open>EcsComponent\<close> data of \<open>c\<close>, that is
    \<open>ecs_has(world, c, EcsComponent)\<close> (\<open>None\<close>: no) and
    \<open>ecs_get_ptr(world, c, EcsComponent)->size\<close>;
  \<^item> \<open>get_entity e\<close>: \<open>ecs_get_entity(world, NULL, e)\<close>, the record of \<open>e\<close> in the
    entity index (\<open>None\<close>: NULL) with the type of its table (\<open>None\<close>: the record has no
    table);
  \<^item> \<open>find_entity_in_prefabs\<close>, \<open>get_ptr_intern\<close>, \<open>get_type\<close>, \<open>type_has_entity\<close>,
    \<open>type_has_entity_intern\<close> and \<open>type_add_intern\<close>: the functions of these names;
  \<^item> \<open>malloc_columns n k\<close>: what slot \<open>k\<close> of the plan array that \<open>ecs_os_malloc\<close>
    returns for record number \<open>n\<close> of a query holds before the matcher writes it, and
    \<open>malloc_components n k\<close> likewise. The program does not determine these contents:
    they are whatever the allocator left in the block, they differ from one allocation
    to the next, and two runs of the program are two stores that need not agree on them.
\<close>

record ecs_store =
  ECS_CHILDOF :: ecs_entity_t
  ECS_ENTITY_MASK :: ecs_entity_t
  EEcsDisabled :: ecs_entity_t
  EEcsPrefab :: ecs_entity_t
  component_size :: "ecs_entity_t \<Rightarrow> nat option"
  get_entity :: "ecs_entity_t \<Rightarrow> ecs_entity_t list option option"
  find_entity_in_prefabs ::
    "ecs_entity_t \<Rightarrow> ecs_entity_t list \<Rightarrow> ecs_entity_t \<Rightarrow> ecs_entity_t \<Rightarrow> ecs_entity_t"
  get_ptr_intern :: "ecs_entity_t \<Rightarrow> ecs_entity_t \<Rightarrow> nat option"
  get_type :: "ecs_entity_t \<Rightarrow> ecs_entity_t list"
  type_has_entity :: "ecs_entity_t list \<Rightarrow> ecs_entity_t \<Rightarrow> bool"
  type_has_entity_intern :: "ecs_entity_t list \<Rightarrow> ecs_entity_t \<Rightarrow> bool \<Rightarrow> bool"
  type_add_intern :: "ecs_entity_t list option \<Rightarrow> ecs_entity_t \<Rightarrow> ecs_entity_t list option"
  malloc_columns :: "nat \<Rightarrow> nat \<Rightarrow> int"
  malloc_components :: "nat \<Rightarrow> nat \<Rightarrow> ecs_entity_t"

text \<open>
  Modelled from the spec: the header constant \<open>ECS_INVALID_ENTITY\<close> is not under src/;
  the invalid entity is entity 0.
\<close>

definition ECS_INVALID_ENTITY :: ecs_entity_t where
  "ECS_INVALID_ENTITY = 0"

text \<open>
  A type holds an id when the id is one of its elements or, if prefabs are searched, when
  the id is found through the prefab chain of the type.
\<close>

definition type_holds :: "ecs_store \<Rightarrow> ecs_entity_t list \<Rightarrow> bool \<Rightarrow> ecs_entity_t \<Rightarrow> bool" where
  "type_holds st ty search_prefabs c =
     (c \<in> set ty \<or> (search_prefabs \<and> find_entity_in_prefabs st 0 ty c 0 \<noteq> 0))"

text \<open>
  Modelled from the spec: \<open>ecs_type_contains\<close> is not under src/.
  \<open>type_contains(a, b, all, search_prefabs)\<close> is an id or 0: non-zero when \<open>a\<close> holds the
  components of \<open>b\<close>, all of them if \<open>all\<close> is set, otherwise the first member of \<open>b\<close>
  that \<open>a\<close> holds, optionally looking through the prefab chain. The spec does not say
  which id is returned when all components are required; the model returns the last.
\<close>

definition ecs_type_contains ::
  "ecs_store \<Rightarrow> ecs_entity_t list \<Rightarrow> ecs_entity_t list \<Rightarrow> bool \<Rightarrow> bool \<Rightarrow> ecs_entity_t" where
  "ecs_type_contains st type_1 type_2 match_all search_prefabs =
     (if match_all then
        (if type_2 \<noteq> [] \<and> list_all (type_holds st type_1 search_prefabs) type_2
         then last type_2 else 0)
      else
        (case filter (type_holds st type_1 search_prefabs) type_2 of
           [] \<Rightarrow> 0
         | c # cs \<Rightarrow> c))"

text \<open>
  Modelled from the spec: \<open>ecs_type_index_of\<close> is not under src/.
  \<open>type_index_of(type, id)\<close> is the signed index of \<open>id\<close> in \<open>type\<close>, or -1.
\<close>

fun ecs_type_index_of :: "ecs_entity_t list \<Rightarrow> ecs_entity_t \<Rightarrow> int" where
  "ecs_type_index_of [] c = - 1"
| "ecs_type_index_of (e # es) c =
     (if e = c then 0
      else (let i = ecs_type_index_of es c in if i = - 1 then - 1 else i + 1))"

text \<open>
  Modelled from the spec: \<open>ecs_components_contains_component\<close> is not under src/. It
  looks for a parent, an entry of the table's type with the given flag, whose own table
  contains the component; it returns whether there is one and stores the first in
  \<open>entity_out\<close>. The result is that parent, or \<open>None\<close>.
\<close>

fun ecs_components_contains_component ::
  "ecs_store \<Rightarrow> ecs_entity_t list \<Rightarrow> ecs_entity_t \<Rightarrow> ecs_entity_t \<Rightarrow> ecs_entity_t option" where
  "ecs_components_contains_component st [] component flgs = None"
| "ecs_components_contains_component st (e # es) component flgs =
     (if e AND flgs \<noteq> 0 then
        (case get_entity st (e AND ECS_ENTITY_MASK st) of
           Some (Some ty) \<Rightarrow>
             (if type_has_entity st ty component then Some (e AND ECS_ENTITY_MASK st)
              else ecs_components_contains_component st es component flgs)
         | _ \<Rightarrow> ecs_components_contains_component st es component flgs)
      else ecs_components_contains_component st es component flgs)"

subsection \<open>components_contains and ecs_get_entity_for_component\<close>

text \<open>
  \<open>components_contains\<close>: the loop over the table's type. The result is the component
  returned and the entity stored in \<open>entity_out\<close>; where the source returns 0 and leaves
  \<open>entity_out\<close> alone, the entity is the 0 its callers initialised it with. The assertion
  on the record of the parent is fatal.
\<close>

fun components_contains ::
  "ecs_store \<Rightarrow> ecs_entity_t list \<Rightarrow> ecs_entity_t list \<Rightarrow> bool
     \<Rightarrow> ecs_error + ecs_entity_t \<times> ecs_entity_t" where
  "components_contains st [] ty match_all = Inr (0, 0)"
| "components_contains st (e # es) ty match_all =
     (if e AND ECS_CHILDOF st \<noteq> 0 then
        (let entity = e AND ECS_ENTITY_MASK st
         in case get_entity st entity of
              None \<Rightarrow> Inl ECS_INTERNAL_ERROR
            | Some row_table \<Rightarrow>
                (case row_table of
                   Some row_type \<Rightarrow>
                     (let component = ecs_type_contains st row_type ty match_all True
                      in if component \<noteq> 0 then Inr (component, entity)
                         else components_contains st es ty match_all)
                 | None \<Rightarrow> components_contains st es ty match_all))
      else components_contains st es ty match_all)"

text \<open>
  \<open>ecs_get_entity_for_component\<close>. Reading \<open>row->table->type\<close> of a record without a
  table is a read through a null pointer.
\<close>

definition ecs_get_entity_for_component ::
  "ecs_store \<Rightarrow> ecs_entity_t \<Rightarrow> ecs_entity_t list \<Rightarrow> ecs_entity_t \<Rightarrow> ecs_error + ecs_entity_t" where
  "ecs_get_entity_for_component st entity ty component =
     (case (if entity \<noteq> 0 then
              (case get_entity st entity of
                 None \<Rightarrow> Inl ECS_INTERNAL_ERROR
               | Some None \<Rightarrow> Inl ECS_NULL_DEREFERENCE
               | Some (Some row_type) \<Rightarrow> Inr row_type)
            else Inr ty) of
        Inl err \<Rightarrow> Inl err
      | Inr ty' \<Rightarrow>
          Inr (if component \<in> set ty' then entity
               else find_entity_in_prefabs st entity ty' component 0))"

subsection \<open>add_table\<close>

text \<open>
  Lines 107 to 156 of \<open>add_table\<close>: the entity and the component of one signature
  column. The third result says whether the branch wrote 0 into the plan slot, which only
  the branch for \<open>EcsFromEmpty\<close> does.
\<close>

definition column_source ::
  "ecs_store \<Rightarrow> ecs_entity_t \<Rightarrow> ecs_entity_t list \<Rightarrow> ecs_signature_column_t
     \<Rightarrow> ecs_error + ecs_entity_t \<times> ecs_entity_t \<times> bool" where
  "column_source st sys table_type column =
     (let frm = sc_from column; oper = sc_op column
      in if frm = EcsFromSelf \<or> frm = EcsFromEntity \<or> frm = EcsFromOwned \<or> frm = EcsFromShared
         then
           Inr (if frm = EcsFromEntity then sc_source column else 0,
                if oper = EcsOperAnd then sc_component column
                else if oper = EcsOperOptional then sc_component column
                else if oper = EcsOperOr
                     then ecs_type_contains st table_type (sc_type column) False True
                else 0,
                False)
         else if frm = EcsFromEmpty then Inr (0, sc_component column, True)
         else if frm = EcsFromContainer \<or> frm = EcsCascade then
           (if oper = EcsOperAnd \<or> oper = EcsOperOptional then
              Inr (case ecs_components_contains_component st table_type (sc_component column)
                          (ECS_CHILDOF st) of
                     Some parent \<Rightarrow> parent
                   | None \<Rightarrow> 0,
                   sc_component column, False)
            else if oper = EcsOperOr then
              (case components_contains st table_type (sc_type column) False of
                 Inl err \<Rightarrow> Inl err
               | Inr (component, entity) \<Rightarrow> Inr (entity, component, False))
            else Inr (0, 0, False))
         else if frm = EcsFromSystem then
           Inr (sys, if oper = EcsOperAnd then sc_component column else 0, False)
         else Inr (0, 0, False))"

text \<open>
  Lines 160 to 193: the plan slot from the offset of the component in the table, and the
  override for an optional column. \<open>slot0\<close> is what the slot held before.
\<close>

definition column_slot ::
  "ecs_store \<Rightarrow> ecs_table_t \<Rightarrow> ecs_signature_from_kind_t \<Rightarrow> ecs_signature_op_kind_t
     \<Rightarrow> ecs_entity_t \<Rightarrow> ecs_entity_t \<Rightarrow> int \<Rightarrow> int" where
  "column_slot st t frm oper entity component slot0 =
     (let slot1 =
            (if entity = 0 \<and> frm \<noteq> EcsFromEmpty then
               (if component \<noteq> 0 then
                  (let i = ecs_type_index_of (ttype t) component
                   in if i \<noteq> - 1 then
                        (case component_size st component of
                           None \<Rightarrow> 0
                         | Some sz \<Rightarrow> if sz = 0 then 0 else i + 1)
                      else i)
                else slot0)
             else slot0)
      in if oper = EcsOperOptional then
           (if \<not> type_has_entity_intern st (ttype t) component True then 0 else slot1)
         else slot1)"

text \<open>
  Lines 213 to 261: the reference branch. The state is the reference list of the matched
  table, the flag \<open>query->sig.has_refs\<close> and the entities passed to \<open>ecs_set_watch\<close>;
  the result is that state and the plan slot.
\<close>

definition column_reference ::
  "ecs_store \<Rightarrow> ecs_entity_t list \<Rightarrow> ecs_signature_from_kind_t \<Rightarrow> ecs_entity_t \<Rightarrow> ecs_entity_t
     \<Rightarrow> int \<Rightarrow> ecs_reference_t list \<times> bool \<times> ecs_entity_t list
     \<Rightarrow> ecs_error + int \<times> ecs_reference_t list \<times> bool \<times> ecs_entity_t list" where
  "column_reference st table_type frm entity component slot s =
     (case s of (refs, hr, watched) \<Rightarrow>
        if entity \<noteq> 0 \<or> slot = - 1 \<or> frm = EcsCascade then
          (case component_size st component of
             None \<Rightarrow> Inr (slot, refs, hr, watched)
           | Some sz \<Rightarrow>
               if sz \<noteq> 0 then
                 (case (if frm = EcsFromEntity then Inr entity
                        else if frm = EcsCascade then Inr entity
                        else
                          (case ecs_get_entity_for_component st entity table_type component of
                             Inl err \<Rightarrow> Inl err
                           | Inr e \<Rightarrow> if e = 0 then Inl ECS_INTERNAL_ERROR else Inr e)) of
                    Inl err \<Rightarrow> Inl err
                  | Inr e \<Rightarrow>
                      (let r = \<lparr>ref_entity = e, ref_component = component,
                                cached_ptr = (if e \<noteq> ECS_INVALID_ENTITY
                                              then get_ptr_intern st e component else None)\<rparr>;
                           watched' = (if e \<noteq> ECS_INVALID_ENTITY then watched @ [e] else watched);
                           refs' = refs @ [r]
                       in Inr (- int (length refs'), refs', True, watched')))
               else Inr (slot, refs, hr, watched))
        else Inr (slot, refs, hr, watched))"

text \<open>
  One iteration of the loop of \<open>add_table\<close>, for the signature column \<open>column\<close> at
  index \<open>c\<close>. The state is the matched table record, \<open>has_refs\<close> and the watched entities.
\<close>

definition add_table_column ::
  "ecs_store \<Rightarrow> ecs_entity_t \<Rightarrow> ecs_table_t \<Rightarrow> nat \<Rightarrow> ecs_signature_column_t
     \<Rightarrow> ecs_matched_table_t \<times> bool \<times> ecs_entity_t list
     \<Rightarrow> ecs_error + ecs_matched_table_t \<times> bool \<times> ecs_entity_t list" where
  "add_table_column st sys t c column s =
     (case s of (td, hr, watched) \<Rightarrow>
        if \<not> (sc_op column \<noteq> EcsOperNot \<or> sc_from column = EcsFromEmpty)
        then Inl ECS_INTERNAL_ERROR
        else
          (case column_source st sys (ttype t) column of
             Inl err \<Rightarrow> Inl err
           | Inr (entity, component, zeroed) \<Rightarrow>
               (let slot0 = (if zeroed then 0 else mt_columns td ! c);
                    slot2 = column_slot st t (sc_from column) (sc_op column) entity component slot0
                in case column_reference st (ttype t) (sc_from column) entity component slot2
                          (mt_references td, hr, watched) of
                     Inl err \<Rightarrow> Inl err
                   | Inr (slot3, refs, hr', watched') \<Rightarrow>
                       Inr (td\<lparr>mt_columns := (mt_columns td)[c := slot3],
                               mt_components := (mt_components td)[c := component],
                               mt_references := refs\<rparr>,
                            hr', watched'))))"

fun add_table_loop ::
  "ecs_store \<Rightarrow> ecs_entity_t \<Rightarrow> ecs_table_t \<Rightarrow> nat \<Rightarrow> ecs_signature_column_t list
     \<Rightarrow> ecs_matched_table_t \<times> bool \<times> ecs_entity_t list
     \<Rightarrow> ecs_error + ecs_matched_table_t \<times> bool \<times> ecs_entity_t list" where
  "add_table_loop st sys t c [] s = Inr s"
| "add_table_loop st sys t c (column # rest) s =
     (case add_table_column st sys t c column s of
        Inl err \<Rightarrow> Inl err
      | Inr s' \<Rightarrow> add_table_loop st sys t (c + 1) rest s')"

text \<open>
  \<open>add_table\<close>. The state of the matcher is the list of entities passed to
  \<open>ecs_set_watch\<close> and the query. The plan arrays come from \<open>ecs_os_malloc\<close> and hold
  whatever the allocator left in them until the loop writes them; the record is number
  \<open>length (tables q)\<close> of the query.
\<close>

definition add_table ::
  "ecs_store \<Rightarrow> ecs_entity_t list \<times> ecs_query_t \<Rightarrow> ecs_table_t
     \<Rightarrow> ecs_error + ecs_entity_t list \<times> ecs_query_t" where
  "add_table st s t =
     (case s of (watched, q) \<Rightarrow>
        (let column_count = length (sig_columns (sig q));
             n = length (tables q);
             table_data = \<lparr>mt_table = t,
                           mt_columns = map (malloc_columns st n) [0 ..< column_count],
                           mt_components = map (malloc_components st n) [0 ..< column_count],
                           mt_references = []\<rparr>
         in case add_table_loop st (system q) t 0 (sig_columns (sig q))
                   (table_data, has_refs (sig q), watched) of
              Inl err \<Rightarrow> Inl err
            | Inr (td, hr, watched') \<Rightarrow>
                Inr (watched', q\<lparr>tables := tables q @ [td], sig := (sig q)\<lparr>has_refs := hr\<rparr>\<rparr>)))"

subsection \<open>match_table\<close>

text \<open>
  The body of the loop of \<open>match_table\<close> over the signature columns: \<open>False\<close> is the
  early \<open>return false\<close>, \<open>True\<close> lets the loop go on.
\<close>

definition match_column ::
  "ecs_store \<Rightarrow> ecs_entity_t list \<Rightarrow> ecs_signature_column_t \<Rightarrow> ecs_error + bool" where
  "match_column st table_type elem =
     (let frm = sc_from elem; oper = sc_op elem
      in if oper = EcsOperAnd then
           (if frm = EcsFromSelf \<or> frm = EcsFromOwned \<or> frm = EcsFromShared then Inr True
            else if frm = EcsFromContainer then
              Inr (ecs_components_contains_component st table_type (sc_component elem)
                     (ECS_CHILDOF st) \<noteq> None)
            else if frm = EcsFromEntity then
              Inr (type_has_entity st (get_type st (sc_source elem)) (sc_component elem))
            else Inr True)
         else if oper = EcsOperOr then
           (if frm = EcsFromSelf then
              Inr (ecs_type_contains st table_type (sc_type elem) False True \<noteq> 0)
            else if frm = EcsFromContainer then
              (case components_contains st table_type (sc_type elem) False of
                 Inl err \<Rightarrow> Inl err
               | Inr (component, entity) \<Rightarrow> Inr (component \<noteq> 0))
            else Inr True)
         else if oper = EcsOperNot then
           (if frm = EcsFromEntity then
              Inr (\<not> type_has_entity st (get_type st (sc_source elem)) (sc_component elem))
            else Inr True)
         else Inr True)"

fun match_columns ::
  "ecs_store \<Rightarrow> ecs_entity_t list \<Rightarrow> ecs_signature_column_t list \<Rightarrow> ecs_error + bool" where
  "match_columns st table_type [] = Inr True"
| "match_columns st table_type (elem # rest) =
     (case match_column st table_type elem of
        Inl err \<Rightarrow> Inl err
      | Inr ok \<Rightarrow> if ok then match_columns st table_type rest else Inr False)"

definition match_table :: "ecs_store \<Rightarrow> ecs_table_t \<Rightarrow> ecs_query_t \<Rightarrow> ecs_error + bool" where
  "match_table st t q =
     (let table_type = ttype t
      in if \<not> match_disabled (sig q) \<and> type_has_entity_intern st table_type (EEcsDisabled st) False
         then Inr False
         else if \<not> match_prefab (sig q) \<and> type_has_entity_intern st table_type (EEcsPrefab st) False
         then Inr False
         else if (case and_from_self q of
                    Some ty \<Rightarrow> ecs_type_contains st table_type ty True True = 0
                  | None \<Rightarrow> False)
         then Inr False
         else if (case and_from_owned q of
                    Some ty \<Rightarrow> ecs_type_contains st table_type ty True False = 0
                  | None \<Rightarrow> False)
         then Inr False
         else if (case and_from_shared q of
                    Some ty \<Rightarrow> ecs_type_contains st table_type ty True False \<noteq> 0
                  | None \<Rightarrow> False)
         then Inr False
         else if (case and_from_shared q of
                    Some ty \<Rightarrow> ecs_type_contains st table_type ty True True = 0
                  | None \<Rightarrow> False)
         then Inr False
         else
           (case match_columns st table_type (sig_columns (sig q)) of
              Inl err \<Rightarrow> Inl err
            | Inr ok \<Rightarrow>
                if \<not> ok then Inr False
                else if (case not_from_self q of
                           Some ty \<Rightarrow> ecs_type_contains st table_type ty False True \<noteq> 0
                         | None \<Rightarrow> False)
                then Inr False
                else if (case not_from_owned q of
                           Some ty \<Rightarrow> ecs_type_contains st table_type ty False False \<noteq> 0
                         | None \<Rightarrow> False)
                then Inr False
                else if (case not_from_shared q of
                           Some ty \<Rightarrow>
                             ecs_type_contains st table_type ty False False = 0 \<and>
                             ecs_type_contains st table_type ty False True \<noteq> 0
                         | None \<Rightarrow> False)
                then Inr False
                else
                  (case not_from_component q of
                     Some ty \<Rightarrow>
                       (case components_contains st table_type ty False of
                          Inl err \<Rightarrow> Inl err
                        | Inr (component, entity) \<Rightarrow> Inr (component = 0))
                   | None \<Rightarrow> Inr True)))"

subsection \<open>Creating a query and offering tables\<close>

text \<open>\<open>ecs_query_match_table\<close>: a new table is offered to an existing query.\<close>

definition ecs_query_match_table ::
  "ecs_store \<Rightarrow> ecs_entity_t list \<times> ecs_query_t \<Rightarrow> ecs_table_t
     \<Rightarrow> ecs_error + ecs_entity_t list \<times> ecs_query_t" where
  "ecs_query_match_table st s t =
     (case match_table st t (snd s) of
        Inl err \<Rightarrow> Inl err
      | Inr ok \<Rightarrow> if ok then add_table st s t else Inr s)"

text \<open>\<open>match_tables\<close>: the loop over the tables of the world, in their order.\<close>

fun match_tables ::
  "ecs_store \<Rightarrow> ecs_table_t list \<Rightarrow> ecs_entity_t list \<times> ecs_query_t
     \<Rightarrow> ecs_error + ecs_entity_t list \<times> ecs_query_t" where
  "match_tables st [] s = Inr s"
| "match_tables st (t # ts) s =
     (case match_table st t (snd s) of
        Inl err \<Rightarrow> Inl err
      | Inr ok \<Rightarrow>
          if ok then
            (case add_table st s t of
               Inl err \<Rightarrow> Inl err
             | Inr s' \<Rightarrow> match_tables st ts s')
          else match_tables st ts s)"

text \<open>One iteration of the loop of \<open>postprocess\<close>, for the signature column at index \<open>i\<close>.\<close>

definition postprocess_column ::
  "ecs_store \<Rightarrow> nat \<Rightarrow> ecs_signature_column_t \<Rightarrow> ecs_entity_t list \<times> ecs_query_t
     \<Rightarrow> ecs_entity_t list \<times> ecs_query_t" where
  "postprocess_column st i elem s =
     (case s of (watched, q) \<Rightarrow>
        (let frm = sc_from elem; oper = sc_op elem; c = sc_component elem
         in if frm = EcsFromEntity then (watched @ [sc_source elem], q)
            else if frm = EcsCascade then (watched, q\<lparr>sig := (sig q)\<lparr>cascade_by := i + 1\<rparr>\<rparr>)
            else if oper = EcsOperOr then (watched, q)
            else if oper = EcsOperNot then
              (if frm = EcsFromSelf
               then (watched, q\<lparr>not_from_self := type_add_intern st (not_from_self q) c\<rparr>)
               else if frm = EcsFromOwned
               then (watched, q\<lparr>not_from_owned := type_add_intern st (not_from_owned q) c\<rparr>)
               else if frm = EcsFromShared
               then (watched, q\<lparr>not_from_shared := type_add_intern st (not_from_shared q) c\<rparr>)
               else if frm = EcsFromEntity then (watched, q)
               else (watched, q\<lparr>not_from_component := type_add_intern st (not_from_component q) c\<rparr>))
            else if oper = EcsOperAnd then
              (if frm = EcsFromSelf
               then (watched, q\<lparr>and_from_self := type_add_intern st (and_from_self q) c\<rparr>)
               else if frm = EcsFromOwned
               then (watched, q\<lparr>and_from_owned := type_add_intern st (and_from_owned q) c\<rparr>)
               else if frm = EcsFromShared
               then (watched, q\<lparr>and_from_shared := type_add_intern st (and_from_shared q) c\<rparr>)
               else if frm = EcsFromSystem
               then (watched, q\<lparr>and_from_system := type_add_intern st (and_from_system q) c\<rparr>)
               else (watched, q))
            else (watched, q)))"

fun postprocess_loop ::
  "ecs_store \<Rightarrow> nat \<Rightarrow> ecs_signature_column_t list \<Rightarrow> ecs_entity_t list \<times> ecs_query_t
     \<Rightarrow> ecs_entity_t list \<times> ecs_query_t" where
  "postprocess_loop st i [] s = s"
| "postprocess_loop st i (elem # rest) s =
     postprocess_loop st (i + 1) rest (postprocess_column st i elem s)"

definition postprocess ::
  "ecs_store \<Rightarrow> ecs_entity_t list \<times> ecs_query_t \<Rightarrow> ecs_entity_t list \<times> ecs_query_t" where
  "postprocess st s = postprocess_loop st 0 (sig_columns (sig (snd s))) s"

text \<open>
  \<open>ecs_new_query\<close>. \<open>world_tables\<close> are the tables of the world in creation order,
  \<open>fresh\<close> is the element that \<open>ecs_sparse_add\<close> hands out for the new query. The
  result is the watched entities, the query, and the caller's signature with \<open>owned\<close>
  cleared.
\<close>

definition ecs_new_query ::
  "ecs_store \<Rightarrow> ecs_table_t list \<Rightarrow> ecs_entity_t list \<Rightarrow> ecs_query_t \<Rightarrow> ecs_signature_t
     \<Rightarrow> ecs_error + ecs_entity_t list \<times> ecs_query_t \<times> ecs_signature_t" where
  "ecs_new_query st world_tables watched fresh sg =
     (let result = fresh\<lparr>sig := sg\<rparr>
      in case match_tables st world_tables (postprocess st (watched, result)) of
           Inl err \<Rightarrow> Inl err
         | Inr (watched', q) \<Rightarrow> Inr (watched', q, sg\<lparr>owned := False\<rparr>))"

text \<open>
  The tables created after the query: the world offers each of them to the query with
  \<open>ecs_query_match_table\<close>, in creation order.
\<close>

fun offer_tables ::
  "ecs_store \<Rightarrow> ecs_table_t list \<Rightarrow> ecs_entity_t list \<times> ecs_query_t
     \<Rightarrow> ecs_error + ecs_entity_t list \<times> ecs_query_t" where
  "offer_tables st [] s = Inr s"
| "offer_tables st (t # ts) s =
     (case ecs_query_match_table st s t of
        Inl err \<Rightarrow> Inl err
      | Inr s' \<Rightarrow> offer_tables st ts s')"

text \<open>
  The other order of events: the query is created while the world has no table, and the
  tables are offered to it afterwards.
\<close>

definition new_query_then_offer ::
  "ecs_store \<Rightarrow> ecs_table_t list \<Rightarrow> ecs_entity_t list \<Rightarrow> ecs_query_t \<Rightarrow> ecs_signature_t
     \<Rightarrow> ecs_error + ecs_entity_t list \<times> ecs_query_t \<times> ecs_signature_t" where
  "new_query_then_offer st ts watched fresh sg =
     (case ecs_new_query st [] watched fresh sg of
        Inl err \<Rightarrow> Inl err
      | Inr (watched1, q1, sg1) \<Rightarrow>
          (case offer_tables st ts (watched1, q1) of
             Inl err \<Rightarrow> Inl err
           | Inr (watched2, q2) \<Rightarrow> Inr (watched2, q2, sg1)))"

subsection \<open>An example world\<close>

text \<open>
  Entities 9, 10 and 11 are components of non-zero element size, entity 12 is a tag. The
  flags are the two top bits of an id. The prefab 200 has the tag 12 and the prefab 201
  has the component 9. The parent 100 owns the component 11 and is an instance of the
  prefab 201; the parent 101 owns the components 10 and 11.
\<close>

definition CHILDOF_bit :: ecs_entity_t where
  "CHILDOF_bit = 4611686018427387904"

definition INSTANCEOF_bit :: ecs_entity_t where
  "INSTANCEOF_bit = 9223372036854775808"

definition st_ex :: ecs_store where
  "st_ex = \<lparr>ECS_CHILDOF = CHILDOF_bit,
            ECS_ENTITY_MASK = 4611686018427387903,
            EEcsDisabled = 3,
            EEcsPrefab = 2,
            component_size = (\<lambda>c. if c = 9 then Some 4
                                   else if c = 10 \<or> c = 11 then Some 8 else None),
            get_entity = (\<lambda>e. if e = 100 then Some (Some [11, INSTANCEOF_bit + 201])
                               else if e = 101 then Some (Some [10, 11])
                               else if e = 200 then Some (Some [2, 12])
                               else if e = 201 then Some (Some [2, 9])
                               else None),
            find_entity_in_prefabs =
              (\<lambda>e ty c ex. if c = 12 \<and> INSTANCEOF_bit + 200 \<in> set ty then 200
                            else if c = 9 \<and> INSTANCEOF_bit + 201 \<in> set ty then 201
                            else 0),
            get_ptr_intern = (\<lambda>e c. if e = 100 \<and> c = 11 then Some 4096
                                     else if e = 101 \<and> c = 10 then Some 8192
                                     else if e = 101 \<and> c = 11 then Some 8200
                                     else if e = 201 \<and> c = 9 then Some 12288
                                     else None),
            get_type = (\<lambda>e. if e = 100 then [11, INSTANCEOF_bit + 201]
                             else if e = 101 then [10, 11]
                             else if e = 200 then [2, 12]
                             else if e = 201 then [2, 9] else []),
            type_has_entity = (\<lambda>ty c. c \<in> set ty),
            type_has_entity_intern = (\<lambda>ty c prefabs. c \<in> set ty),
            type_add_intern = (\<lambda>ty c. Some (case ty of None \<Rightarrow> [c] | Some l \<Rightarrow> l @ [c])),
            malloc_columns = (\<lambda>n k. 7777),
            malloc_components = (\<lambda>n k. 0)\<rparr>"

text \<open>The same world in a run in which the allocator left other contents in its blocks.\<close>

definition st_ex2 :: ecs_store where
  "st_ex2 = st_ex\<lparr>malloc_columns := (\<lambda>n k. 4242)\<rparr>"

definition q_fresh :: ecs_query_t where
  "q_fresh = \<lparr>sig = \<lparr>sig_columns = [], match_disabled = False, match_prefab = False,
                      has_refs = False, cascade_by = 0, owned = True\<rparr>,
              tables = [], system = 0,
              and_from_self = None, and_from_owned = None, and_from_shared = None,
              and_from_system = None, not_from_self = None, not_from_owned = None,
              not_from_shared = None, not_from_component = None\<rparr>"

definition sig_of :: "ecs_signature_column_t list \<Rightarrow> ecs_signature_t" where
  "sig_of cols = \<lparr>sig_columns = cols, match_disabled = False, match_prefab = False,
                  has_refs = False, cascade_by = 0, owned = True\<rparr>"

definition table_of :: "ecs_type_t \<Rightarrow> ecs_entity_t list \<Rightarrow> ecs_table_t" where
  "table_of tid ty = \<lparr>ttype = ty, type_id = tid, columns = tid, frame_systems = [], flags = 0\<rparr>"

definition sig_column ::
  "ecs_signature_from_kind_t \<Rightarrow> ecs_signature_op_kind_t \<Rightarrow> ecs_entity_t \<Rightarrow> ecs_signature_column_t" where
  "sig_column frm oper c =
     \<lparr>sc_from = frm, sc_op = oper, sc_component = c, sc_type = [], sc_source = 0\<rparr>"

definition sig_column_or ::
  "ecs_signature_from_kind_t \<Rightarrow> ecs_entity_t list \<Rightarrow> ecs_signature_column_t" where
  "sig_column_or frm ty =
     \<lparr>sc_from = frm, sc_op = EcsOperOr, sc_component = 0, sc_type = ty, sc_source = 0\<rparr>"

text \<open>The tables and the signature of the first scenario: \<open>{A, B}\<close>, \<open>{A}\<close>, \<open>{B, C}\<close>
  with A = 10, B = 11 and C = 9, and the signature \<open>And Self A\<close>.\<close>

definition t_s1 :: "ecs_table_t list" where
  "t_s1 = [table_of 1 [10, 11], table_of 2 [10], table_of 3 [9, 11]]"

definition sig_s1 :: ecs_signature_t where
  "sig_s1 = sig_of [sig_column EcsFromSelf EcsOperAnd 10]"



text \<open>The plan of a matched table record, and the plans of a query in the order of its
  matched tables.\<close>

definition plan_of ::
  "ecs_matched_table_t \<Rightarrow> ecs_type_t \<times> int list \<times> ecs_entity_t list \<times> ecs_reference_t list" where
  "plan_of m = (type_id (mt_table m), mt_columns m, mt_components m, mt_references m)"

definition plans_of ::
  "ecs_error + ecs_entity_t list \<times> ecs_query_t \<times> ecs_signature_t
     \<Rightarrow> (ecs_type_t \<times> int list \<times> ecs_entity_t list \<times> ecs_reference_t list) list" where
  "plans_of r = map plan_of (tables (fst (snd (projr r))))"

text \<open>
  The parents of a table: the entities named by the entries of its type that carry the
  \<open>CHILDOF\<close> flag, in the order of the type. The alternative that a parent offers for
  an \<open>Or\<close> column is what \<open>ecs_type_contains\<close> finds in the type of the parent's table
  (0: none).
\<close>

definition childof_parents :: "ecs_store \<Rightarrow> ecs_entity_t list \<Rightarrow> ecs_entity_t list" where
  "childof_parents st table_type =
     map (\<lambda>e. e AND ECS_ENTITY_MASK st) (filter (\<lambda>e. e AND ECS_CHILDOF st \<noteq> 0) table_type)"

definition parent_alternative ::
  "ecs_store \<Rightarrow> ecs_entity_t list \<Rightarrow> ecs_entity_t \<Rightarrow> ecs_entity_t" where
  "parent_alternative st alts p =
     (case get_entity st p of
        Some (Some ty) \<Rightarrow> ecs_type_contains st ty alts False True
      | _ \<Rightarrow> 0)"

section \<open>Properties of the table store\<close>

subsection \<open>Activation notices and 32 bit counts\<close>

lemma activations_foldl:
  "activations (foldl (\<lambda>w' s. ecs_system_activate_table w' s t a) w ss) =
     activations w @ map (\<lambda>s. (s, type_id t, a)) ss"
  by (induction ss arbitrary: w) (simp_all add: ecs_system_activate_table_def)

lemma foldl_activate_fields:
  "colsets (foldl (\<lambda>w' s. ecs_system_activate_table w' s t a) w ss) = colsets w \<and>
   in_progress (foldl (\<lambda>w' s. ecs_system_activate_table w' s t a) w ss) = in_progress w \<and>
   should_resolve (foldl (\<lambda>w' s. ecs_system_activate_table w' s t a) w ss) = should_resolve w \<and>
   entity_index (foldl (\<lambda>w' s. ecs_system_activate_table w' s t a) w ss) = entity_index w \<and>
   prefab_index (foldl (\<lambda>w' s. ecs_system_activate_table w' s t a) w ss) = prefab_index w"
  by (induction ss arbitrary: w) (simp_all add: ecs_system_activate_table_def)

lemma activate_table_all:
  "activations (activate_table w t 0 a) = activations w @ map (\<lambda>s. (s, type_id t, a)) (frame_systems t)"
  "colsets (activate_table w t 0 a) = colsets w"
  "in_progress (activate_table w t 0 a) = in_progress w"
  "should_resolve (activate_table w t 0 a) = should_resolve w"
  "entity_index (activate_table w t 0 a) = entity_index w"
  "prefab_index (activate_table w t 0 a) = prefab_index w"
  by (simp_all add: activate_table_def activations_foldl foldl_activate_fields)

lemma word32_of_nat_pred: "(of_nat (n + 1) :: 32 word) - 1 = of_nat n"
  by simp

lemma word32_of_nat_eq_0: "n < 2 ^ 32 \<Longrightarrow> ((of_nat n :: 32 word) = 0) = (n = 0)"
  by (auto simp: word_of_nat_eq_0_iff dest: dvd_imp_le)

lemma word32_unat_of_nat: "n < 2 ^ 32 \<Longrightarrow> unat (of_nat n :: 32 word) = n"
  by (simp add: unat_of_nat)


lemma w32_sint_of_nat: "k < 2 ^ 31 \<Longrightarrow> sint (of_nat k :: 32 word) = int k"
  by (simp add: signed_of_nat signed_take_bit_int_eq_self)

lemma w32_sint_neg_of_nat: "k < 2 ^ 31 \<Longrightarrow> sint (- of_nat k :: 32 word) = - int k"
proof -
  assume k: "k < 2 ^ 31"
  have "(- of_nat k :: 32 word) = word_of_int (- int k)" by simp
  then have "sint (- of_nat k :: 32 word) = signed_take_bit 31 (- int k)"
    by (simp only: sint_sbintrunc') simp
  also have "\<dots> = - int k" using k by (intro signed_take_bit_int_eq_self) simp_all
  finally show ?thesis .
qed

lemma w32_pred: "0 < k \<Longrightarrow> (of_nat k :: 32 word) - 1 = of_nat (k - 1)"
  by (cases k) simp_all

lemma w32_le: "a < 2 ^ 32 \<Longrightarrow> b < 2 ^ 32 \<Longrightarrow> ((of_nat a :: 32 word) \<le> of_nat b) = (a \<le> b)"
  by (simp add: word_le_nat_alt unat_of_nat)

lemma w32_eq: "a < 2 ^ 32 \<Longrightarrow> b < 2 ^ 32 \<Longrightarrow> ((of_nat a :: 32 word) = of_nat b) = (a = b)"
  by (simp add: word_of_nat_eq_iff take_bit_nat_eq_self)

lemma w32_unat: "a < 2 ^ 32 \<Longrightarrow> unat (of_nat a :: 32 word) = a"
  by (simp add: unat_of_nat)


subsection \<open>Insert\<close>

lemma insert_columns_length:
  "length (fst (insert_columns al is cols r)) = length cols"
  by (induction "is" arbitrary: cols r) (auto simp: ecs_vector_add_def)

lemma insert_columns_ok:
  assumes "distinct is" and "\<forall>i\<in>set is. i < length cols"
    and "\<forall>i\<in>set is. csize (cols ! i) \<noteq> 0 \<longrightarrow> al i \<noteq> OutOfMemory"
  shows "insert_columns al is cols r =
           (map (\<lambda>j. if j \<in> set is \<and> csize (cols ! j) \<noteq> 0
                      then (cols ! j)\<lparr>cdata := cdata (cols ! j) @ [Uninit]\<rparr> else cols ! j)
                [0 ..< length cols],
            Some (r \<or> (\<exists>i\<in>set is. csize (cols ! i) \<noteq> 0 \<and> al i = Moved)))"
  using assms
proof (induction "is" arbitrary: cols r)
  case Nil
  then show ?case by (simp add: map_nth)
next
  case (Cons i "is")
  show ?case
  proof (cases "csize (cols ! i) \<noteq> 0")
    case False
    have "insert_columns al (i # is) cols r = insert_columns al is cols r"
      using False by simp
    also have "\<dots> = (map (\<lambda>j. if j \<in> set is \<and> csize (cols ! j) \<noteq> 0
                      then (cols ! j)\<lparr>cdata := cdata (cols ! j) @ [Uninit]\<rparr> else cols ! j)
                [0 ..< length cols],
            Some (r \<or> (\<exists>i\<in>set is. csize (cols ! i) \<noteq> 0 \<and> al i = Moved)))"
      using Cons.prems by (intro Cons.IH) auto
    finally show ?thesis using False by auto
  next
    case True
    let ?c = "cols[i := (cols ! i)\<lparr>cdata := cdata (cols ! i) @ [Uninit]\<rparr>]"
    have ok: "al i \<noteq> OutOfMemory" using Cons.prems True by simp
    have i: "i < length cols" "i \<notin> set is" using Cons.prems by auto
    have "insert_columns al (i # is) cols r =
            insert_columns al is ?c (if al i = Moved then True else r)"
      using True ok by (simp add: ecs_vector_add_def)
    also have "\<dots> = (map (\<lambda>j. if j \<in> set is \<and> csize (?c ! j) \<noteq> 0
                      then (?c ! j)\<lparr>cdata := cdata (?c ! j) @ [Uninit]\<rparr> else ?c ! j)
                [0 ..< length ?c],
            Some ((if al i = Moved then True else r) \<or> (\<exists>i\<in>set is. csize (?c ! i) \<noteq> 0 \<and> al i = Moved)))"
      using Cons.prems i by (intro Cons.IH) (auto simp: nth_list_update)
    finally show ?thesis using True i
      by (auto simp: nth_list_update intro!: nth_equalityI)
  qed
qed

lemma insert_columns_csize:
  "j < length cols \<Longrightarrow> csize (fst (insert_columns al is cols r) ! j) = csize (cols ! j)"
proof (induction "is" arbitrary: cols r)
  case Nil
  then show ?case by simp
next
  case (Cons i "is")
  show ?case
  proof (cases "csize (cols ! i) \<noteq> 0 \<and> al i \<noteq> OutOfMemory")
    case True
    let ?c = "cols[i := (cols ! i)\<lparr>cdata := cdata (cols ! i) @ [Uninit]\<rparr>]"
    have "csize (fst (insert_columns al is ?c (if al i = Moved then True else r)) ! j) = csize (?c ! j)"
      using Cons.prems by (intro Cons.IH) simp
    moreover have "csize (?c ! j) = csize (cols ! j)"
      using Cons.prems by (cases "i = j") simp_all
    ultimately show ?thesis using True by (simp add: ecs_vector_add_def)
  next
    case False
    then show ?thesis using Cons by (auto simp: ecs_vector_add_def)
  qed
qed

lemma insert_columns_fail:
  assumes "\<forall>i\<in>set is. i < length cols"
    and "\<exists>i\<in>set is. csize (cols ! i) \<noteq> 0 \<and> al i = OutOfMemory"
  shows "snd (insert_columns al is cols r) = None"
  using assms
proof (induction "is" arbitrary: cols r)
  case Nil
  then show ?case by simp
next
  case (Cons i "is")
  show ?case
  proof (cases "csize (cols ! i) \<noteq> 0")
    case False
    then have "\<exists>k\<in>set is. csize (cols ! k) \<noteq> 0 \<and> al k = OutOfMemory"
      using Cons.prems(2) by auto
    then have "snd (insert_columns al is cols r) = None"
      using Cons.prems(1) by (intro Cons.IH) auto
    then show ?thesis using False by simp
  next
    case True
    show ?thesis
    proof (cases "al i = OutOfMemory")
      case True
      then show ?thesis using \<open>csize (cols ! i) \<noteq> 0\<close> by (simp add: ecs_vector_add_def)
    next
      case False
      let ?c = "cols[i := (cols ! i)\<lparr>cdata := cdata (cols ! i) @ [Uninit]\<rparr>]"
      obtain k where k: "k \<in> set is" "csize (cols ! k) \<noteq> 0" "al k = OutOfMemory"
        using Cons.prems(2) False by auto
      have "csize (?c ! k) = csize (cols ! k)"
        using Cons.prems(1) k(1) by (cases "i = k") simp_all
      then have "csize (?c ! k) \<noteq> 0 \<and> al k = OutOfMemory"
        using k by simp
      then have "\<exists>k\<in>set is. csize (?c ! k) \<noteq> 0 \<and> al k = OutOfMemory"
        using k(1) by blast
      then have "snd (insert_columns al is ?c (if al i = Moved then True else r)) = None"
        using Cons.prems(1) by (intro Cons.IH) auto
      then show ?thesis using True False by (simp add: ecs_vector_add_def)
    qed
  qed
qed

lemma insert_columns_prefix:
  "j < length cols \<Longrightarrow>
     take (length (cdata (cols ! j))) (cdata (fst (insert_columns al is cols r) ! j)) = cdata (cols ! j)"
proof (induction "is" arbitrary: cols r)
  case Nil
  then show ?case by simp
next
  case (Cons i "is")
  show ?case
  proof (cases "csize (cols ! i) \<noteq> 0 \<and> al i \<noteq> OutOfMemory")
    case True
    let ?c = "cols[i := (cols ! i)\<lparr>cdata := cdata (cols ! i) @ [Uninit]\<rparr>]"
    let ?res = "cdata (fst (insert_columns al is ?c (if al i = Moved then True else r)) ! j)"
    have ih: "take (length (cdata (?c ! j))) ?res = cdata (?c ! j)"
      using Cons.prems by (intro Cons.IH) simp
    have "take (length (cdata (cols ! j))) ?res = cdata (cols ! j)"
    proof (cases "i = j")
      case False
      then show ?thesis using ih by simp
    next
      case True
      then have "cdata (?c ! j) = cdata (cols ! j) @ [Uninit]"
        using Cons.prems by simp
      then have "take (length (cdata (cols ! j))) (take (length (cdata (cols ! j)) + 1) ?res)
                   = take (length (cdata (cols ! j))) (cdata (cols ! j) @ [Uninit])"
        using ih by simp
      then show ?thesis by simp
    qed
    then show ?thesis using True by (simp add: ecs_vector_add_def)
  next
    case False
    then show ?thesis using Cons by (auto simp: ecs_vector_add_def)
  qed
qed


lemma insert_colsets_other:
  "a \<noteq> cp \<Longrightarrow> colsets (fst (ecs_table_insert al w t cp e)) a = colsets w a"
  by (simp add: ecs_table_insert_def Let_def activate_table_all notify_systems_of_realloc_def
      split: option.splits prod.splits del: upt_Suc)

lemma insert_fail_first:
  "al 0 = OutOfMemory \<Longrightarrow> ecs_table_insert al w t cp e = (w, - 1)"
  by (simp add: ecs_table_insert_def ecs_vector_add_def)

lemma insert_result_fail:
  assumes "al 0 \<noteq> OutOfMemory"
    and "insert_columns al [1 ..< length (ttype t) + 1] (insert_cols1 (colsets w cp) e) False = (cols2, None)"
  shows "ecs_table_insert al w t cp e = (w\<lparr>colsets := (colsets w)(cp := cols2)\<rparr>, - 1)"
  using assms
  by (simp add: ecs_table_insert_def ecs_vector_add_def insert_cols1_def Let_def del: upt_Suc)

lemma insert_result_ok:
  assumes "al 0 \<noteq> OutOfMemory"
    and "insert_columns al [1 ..< length (ttype t) + 1] (insert_cols1 (colsets w cp) e) False = (cols2, Some reallocd)"
  shows "ecs_table_insert al w t cp e =
     (let w1 = w\<lparr>colsets := (colsets w)(cp := cols2)\<rparr>;
          index = (of_nat (length (cdata (cols2 ! 0))) :: 32 word) - 1;
          w2 = (if \<not> in_progress w1 \<and> index = 0 then activate_table w1 t 0 True else w1);
          w3 = (if reallocd \<and> columns t = cp then notify_systems_of_realloc w2 t else w2)
      in (w3, index + 1))"
  using assms
  by (simp add: ecs_table_insert_def ecs_vector_add_def insert_cols1_def Let_def del: upt_Suc)

lemma insert_colset_cp:
  assumes "al 0 \<noteq> OutOfMemory"
  shows "colsets (fst (ecs_table_insert al w t cp e)) cp =
           fst (insert_columns al [1 ..< length (ttype t) + 1] (insert_cols1 (colsets w cp) e) False)"
proof (cases "insert_columns al [1 ..< length (ttype t) + 1] (insert_cols1 (colsets w cp) e) False")
  case (Pair cols2 res)
  show ?thesis
  proof (cases res)
    case None
    then show ?thesis using insert_result_fail[of al, OF assms] Pair by simp
  next
    case (Some reallocd)
    then show ?thesis using insert_result_ok[of al, OF assms] Pair
      by (simp add: Let_def activate_table_all notify_systems_of_realloc_def)
  qed
qed

lemma insert_undisturbed:
  assumes "i < length (colsets w cp)"
  shows "csize (colsets (fst (ecs_table_insert al w t cp e)) cp ! i) = csize (colsets w cp ! i) \<and>
         take (length (cdata (colsets w cp ! i)))
           (cdata (colsets (fst (ecs_table_insert al w t cp e)) cp ! i)) = cdata (colsets w cp ! i)"
proof (cases "al 0 = OutOfMemory")
  case True
  then show ?thesis by (simp add: insert_fail_first)
next
  case False
  let ?c1 = "insert_cols1 (colsets w cp) e"
  have len: "i < length ?c1" using assms by (simp add: insert_cols1_def)
  have c1: "csize (?c1 ! i) = csize (colsets w cp ! i)"
    "take (length (cdata (colsets w cp ! i))) (cdata (?c1 ! i)) = cdata (colsets w cp ! i)"
    using assms by (cases i; simp add: insert_cols1_def)+
  have p: "take (length (cdata (?c1 ! i)))
             (cdata (fst (insert_columns al [1 ..< length (ttype t) + 1] ?c1 False) ! i)) = cdata (?c1 ! i)"
    using len by (rule insert_columns_prefix)
  have le: "length (cdata (colsets w cp ! i)) \<le> length (cdata (?c1 ! i))"
    using assms by (cases i; simp add: insert_cols1_def)
  have "take (length (cdata (colsets w cp ! i)))
          (cdata (fst (insert_columns al [1 ..< length (ttype t) + 1] ?c1 False) ! i))
        = take (length (cdata (colsets w cp ! i))) (take (length (cdata (?c1 ! i)))
             (cdata (fst (insert_columns al [1 ..< length (ttype t) + 1] ?c1 False) ! i)))"
    using le by (simp add: min_def)
  also have "\<dots> = cdata (colsets w cp ! i)" using p c1(2) by simp
  finally show ?thesis
    using insert_columns_csize[OF len, of al "[1 ..< length (ttype t) + 1]" False] c1(1)
    by (simp add: insert_colset_cp[of al, OF False] del: upt_Suc)
qed


lemma insert_cols1_nth:
  "0 < length cols \<Longrightarrow> insert_cols1 cols e ! 0 = (cols ! 0)\<lparr>cdata := cdata (cols ! 0) @ [Handle e]\<rparr>"
  "0 < i \<Longrightarrow> insert_cols1 cols e ! i = cols ! i"
  "length (insert_cols1 cols e) = length cols"
  by (simp_all add: insert_cols1_def)

lemma insert_oom_result:
  assumes wf: "length (colsets w cp) = length (ttype t) + 1"
    and oom: "insert_oom al t (colsets w cp)"
  shows "snd (ecs_table_insert al w t cp e) = - 1"
proof (cases "al 0 = OutOfMemory")
  case True
  then show ?thesis by (simp add: insert_fail_first)
next
  case False
  let ?is = "[1 ..< length (ttype t) + 1]"
  let ?c1 = "insert_cols1 (colsets w cp) e"
  obtain i where i: "i \<in> set ?is" "csize (colsets w cp ! i) \<noteq> 0" "al i = OutOfMemory"
    using oom False unfolding insert_oom_def by blast
  have "0 < i" using i(1) by (simp del: upt_Suc)
  then have "csize (?c1 ! i) \<noteq> 0" using i(2) by (simp add: insert_cols1_nth)
  then have ex: "\<exists>i\<in>set ?is. csize (?c1 ! i) \<noteq> 0 \<and> al i = OutOfMemory"
    using i(1,3) by blast
  have rng: "\<forall>i\<in>set ?is. i < length ?c1" using wf by (simp add: insert_cols1_nth del: upt_Suc)
  have "snd (insert_columns al ?is ?c1 False) = None"
    using rng ex by (rule insert_columns_fail)
  then obtain cols2 where "insert_columns al ?is ?c1 False = (cols2, None)"
    by (cases "insert_columns al ?is ?c1 False") simp
  then show ?thesis using insert_result_fail[of al, OF False] by simp
qed

lemma insert_ok_columns:
  assumes wf: "length (colsets w cp) = length (ttype t) + 1"
    and ok: "\<not> insert_oom al t (colsets w cp)"
  shows "insert_columns al [1 ..< length (ttype t) + 1] (insert_cols1 (colsets w cp) e) False =
           (map (\<lambda>j. if j \<in> set [1 ..< length (ttype t) + 1] \<and> csize (insert_cols1 (colsets w cp) e ! j) \<noteq> 0
                      then (insert_cols1 (colsets w cp) e ! j)
                             \<lparr>cdata := cdata (insert_cols1 (colsets w cp) e ! j) @ [Uninit]\<rparr>
                      else insert_cols1 (colsets w cp) e ! j)
                [0 ..< length (insert_cols1 (colsets w cp) e)],
            Some (False \<or> (\<exists>i\<in>set [1 ..< length (ttype t) + 1].
                    csize (insert_cols1 (colsets w cp) e ! i) \<noteq> 0 \<and> al i = Moved)))"
proof (rule insert_columns_ok)
  show "distinct [1 ..< length (ttype t) + 1]" by simp
  show "\<forall>i\<in>set [1 ..< length (ttype t) + 1]. i < length (insert_cols1 (colsets w cp) e)"
    using wf by (simp add: insert_cols1_nth del: upt_Suc)
  show "\<forall>i\<in>set [1 ..< length (ttype t) + 1].
          csize (insert_cols1 (colsets w cp) e ! i) \<noteq> 0 \<longrightarrow> al i \<noteq> OutOfMemory"
  proof
    fix i assume i: "i \<in> set [1 ..< length (ttype t) + 1]"
    then have "0 < i" by (simp del: upt_Suc)
    then have "insert_cols1 (colsets w cp) e ! i = colsets w cp ! i" by (simp add: insert_cols1_nth)
    then show "csize (insert_cols1 (colsets w cp) e ! i) \<noteq> 0 \<longrightarrow> al i \<noteq> OutOfMemory"
      using ok i unfolding insert_oom_def by auto
  qed
qed

lemma insert_ok_parts:
  assumes "al 0 \<noteq> OutOfMemory"
    and "insert_columns al [1 ..< length (ttype t) + 1] (insert_cols1 (colsets w cp) e) False = (cols2, Some reallocd)"
  shows "snd (ecs_table_insert al w t cp e) = of_nat (length (cdata (cols2 ! 0)))"
    and "activations (fst (ecs_table_insert al w t cp e)) =
           (if \<not> in_progress w \<and> (of_nat (length (cdata (cols2 ! 0))) :: 32 word) - 1 = 0
            then activations w @ map (\<lambda>s. (s, type_id t, True)) (frame_systems t)
            else activations w)"
    and "should_resolve (fst (ecs_table_insert al w t cp e)) =
           (if reallocd \<and> columns t = cp then True else should_resolve w)"
    and "in_progress (fst (ecs_table_insert al w t cp e)) = in_progress w"
  by (simp_all add: insert_result_ok[of al, OF assms] Let_def activate_table_all
        notify_systems_of_realloc_def)

lemma insert_ok_result:
  assumes wf: "length (colsets w cp) = length (ttype t) + 1"
    and bound: "length (cdata (colsets w cp ! 0)) + 1 < 2 ^ 32"
    and ok: "\<not> insert_oom al t (colsets w cp)"
    and run: "ecs_table_insert al w t cp e = (w', r)"
  shows "unat r = length (cdata (colsets w cp ! 0)) + 1"
    and "cdata (colsets w' cp ! 0) = cdata (colsets w cp ! 0) @ [Handle e]"
    and "\<forall>i\<in>set [1 ..< length (ttype t) + 1].
           colsets w' cp ! i =
             (if csize (colsets w cp ! i) \<noteq> 0
              then (colsets w cp ! i)\<lparr>cdata := cdata (colsets w cp ! i) @ [Uninit]\<rparr>
              else colsets w cp ! i)"
    and "cdata (colsets w cp ! 0) = [] \<and> \<not> in_progress w \<longrightarrow>
           activations w' = activations w @ map (\<lambda>s. (s, type_id t, True)) (frame_systems t)"
proof -
  let ?is = "[1 ..< length (ttype t) + 1]"
  let ?c1 = "insert_cols1 (colsets w cp) e"
  let ?c2 = "map (\<lambda>j. if j \<in> set ?is \<and> csize (?c1 ! j) \<noteq> 0
                      then (?c1 ! j)\<lparr>cdata := cdata (?c1 ! j) @ [Uninit]\<rparr> else ?c1 ! j)
                [0 ..< length ?c1]"
  let ?n = "length (cdata (colsets w cp ! 0))"
  have w': "w' = fst (ecs_table_insert al w t cp e)" and r': "r = snd (ecs_table_insert al w t cp e)"
    using run by simp_all
  have al0: "al 0 \<noteq> OutOfMemory" using ok unfolding insert_oom_def by simp
  obtain reallocd where loop: "insert_columns al ?is ?c1 False = (?c2, Some reallocd)"
    using insert_ok_columns[OF wf ok, of e] by simp
  have len: "0 < length (colsets w cp)" "length ?c1 = length (ttype t) + 1"
    using wf by (simp_all add: insert_cols1_nth)
  have c20: "?c2 ! 0 = (colsets w cp ! 0)\<lparr>cdata := cdata (colsets w cp ! 0) @ [Handle e]\<rparr>"
    using len by (simp add: insert_cols1_nth del: upt_Suc)
  have lenc: "length (cdata (?c2 ! 0)) = ?n + 1"
    by (simp only: c20) simp
  have idx0: "((of_nat ?n :: 32 word) = 0) = (?n = 0)"
    using bound by (intro word32_of_nat_eq_0) simp
  have r: "r = of_nat (?n + 1)"
    unfolding r' insert_ok_parts(1)[of al, OF al0 loop] lenc ..
  show "unat r = ?n + 1"
    unfolding r using bound by (rule word32_unat_of_nat)
  have cs: "colsets w' cp = ?c2"
    unfolding w' insert_colset_cp[of al, OF al0] loop by simp
  show "cdata (colsets w' cp ! 0) = cdata (colsets w cp ! 0) @ [Handle e]"
    unfolding cs c20 by simp
  show "\<forall>i\<in>set ?is. colsets w' cp ! i =
             (if csize (colsets w cp ! i) \<noteq> 0
              then (colsets w cp ! i)\<lparr>cdata := cdata (colsets w cp ! i) @ [Uninit]\<rparr>
              else colsets w cp ! i)"
  proof
    fix i assume i: "i \<in> set ?is"
    then have i0: "0 < i" "i < length ?c1" using len by (simp_all del: upt_Suc)
    then have "?c2 ! i = (if csize (?c1 ! i) \<noteq> 0
                      then (?c1 ! i)\<lparr>cdata := cdata (?c1 ! i) @ [Uninit]\<rparr> else ?c1 ! i)"
      using i by (simp del: upt_Suc)
    then show "colsets w' cp ! i =
             (if csize (colsets w cp ! i) \<noteq> 0
              then (colsets w cp ! i)\<lparr>cdata := cdata (colsets w cp ! i) @ [Uninit]\<rparr>
              else colsets w cp ! i)"
      unfolding cs using i0 by (simp add: insert_cols1_nth del: upt_Suc)
  qed
  have "(of_nat (length (cdata (?c2 ! 0))) :: 32 word) - 1 = of_nat ?n"
    unfolding lenc by simp
  then show "cdata (colsets w cp ! 0) = [] \<and> \<not> in_progress w \<longrightarrow>
           activations w' = activations w @ map (\<lambda>s. (s, type_id t, True)) (frame_systems t)"
    unfolding w' insert_ok_parts(2)[of al, OF al0 loop] by (simp add: idx0)
qed

text \<open>
  Claim C1. For a table whose column array has one column per type element plus
  column 0, and an entity \<open>e\<close>: if an allocation fails, \<open>ecs_table_insert\<close> returns the
  sentinel \<open>-1\<close>. Otherwise it returns the 1-based index \<open>r\<close> of the new row, column 0 is
  the old column 0 with \<open>e\<close> appended, so that \<open>column[0][r-1] = e\<close>, every data
  column of non-zero element size has one uninitialised element appended and every
  zero-size column is as before; and if the column set was empty and the world is not in
  progress, every registered system is sent the activation of the table. In every case
  the rows stored before are where they were, and no other column set is touched.
\<close>

theorem ecs_table_insert_spec:
  assumes "length (colsets w cp) = length (ttype t) + 1"
    and "length (cdata (colsets w cp ! 0)) + 1 < 2 ^ 32"
    and "ecs_table_insert al w t cp e = (w', r)"
  shows "(insert_oom al t (colsets w cp) \<longrightarrow> r = - 1) \<and>
         (\<not> insert_oom al t (colsets w cp) \<longrightarrow>
            unat r = length (cdata (colsets w cp ! 0)) + 1 \<and>
            cdata (colsets w' cp ! 0) = cdata (colsets w cp ! 0) @ [Handle e] \<and>
            cdata (colsets w' cp ! 0) ! (unat r - 1) = Handle e \<and>
            (\<forall>i\<in>set [1 ..< length (ttype t) + 1].
               colsets w' cp ! i =
                 (if csize (colsets w cp ! i) \<noteq> 0
                  then (colsets w cp ! i)\<lparr>cdata := cdata (colsets w cp ! i) @ [Uninit]\<rparr>
                  else colsets w cp ! i)) \<and>
            (cdata (colsets w cp ! 0) = [] \<and> \<not> in_progress w \<longrightarrow>
               activations w' =
                 activations w @ map (\<lambda>s. (s, type_id t, True)) (frame_systems t))) \<and>
         (\<forall>i<length (colsets w cp).
            csize (colsets w' cp ! i) = csize (colsets w cp ! i) \<and>
            take (length (cdata (colsets w cp ! i))) (cdata (colsets w' cp ! i)) =
              cdata (colsets w cp ! i)) \<and>
         (\<forall>a. a \<noteq> cp \<longrightarrow> colsets w' a = colsets w a)"
proof -
  have w': "w' = fst (ecs_table_insert al w t cp e)" and r: "r = snd (ecs_table_insert al w t cp e)"
    using assms(3) by simp_all
  have oom: "insert_oom al t (colsets w cp) \<longrightarrow> r = - 1"
    unfolding r using insert_oom_result[OF assms(1)] by blast
  have ok: "\<not> insert_oom al t (colsets w cp) \<longrightarrow>
            unat r = length (cdata (colsets w cp ! 0)) + 1 \<and>
            cdata (colsets w' cp ! 0) = cdata (colsets w cp ! 0) @ [Handle e] \<and>
            cdata (colsets w' cp ! 0) ! (unat r - 1) = Handle e \<and>
            (\<forall>i\<in>set [1 ..< length (ttype t) + 1].
               colsets w' cp ! i =
                 (if csize (colsets w cp ! i) \<noteq> 0
                  then (colsets w cp ! i)\<lparr>cdata := cdata (colsets w cp ! i) @ [Uninit]\<rparr>
                  else colsets w cp ! i)) \<and>
            (cdata (colsets w cp ! 0) = [] \<and> \<not> in_progress w \<longrightarrow>
               activations w' =
                 activations w @ map (\<lambda>s. (s, type_id t, True)) (frame_systems t))"
  proof
    assume n: "\<not> insert_oom al t (colsets w cp)"
    note p = insert_ok_result[OF assms(1) assms(2) n assms(3)]
    have "cdata (colsets w' cp ! 0) ! (unat r - 1) = Handle e"
      unfolding p(1) p(2) by simp
    then show "unat r = length (cdata (colsets w cp ! 0)) + 1 \<and>
            cdata (colsets w' cp ! 0) = cdata (colsets w cp ! 0) @ [Handle e] \<and>
            cdata (colsets w' cp ! 0) ! (unat r - 1) = Handle e \<and>
            (\<forall>i\<in>set [1 ..< length (ttype t) + 1].
               colsets w' cp ! i =
                 (if csize (colsets w cp ! i) \<noteq> 0
                  then (colsets w cp ! i)\<lparr>cdata := cdata (colsets w cp ! i) @ [Uninit]\<rparr>
                  else colsets w cp ! i)) \<and>
            (cdata (colsets w cp ! 0) = [] \<and> \<not> in_progress w \<longrightarrow>
               activations w' =
                 activations w @ map (\<lambda>s. (s, type_id t, True)) (frame_systems t))"
      using p by blast
  qed
  have keep: "\<forall>i<length (colsets w cp).
            csize (colsets w' cp ! i) = csize (colsets w cp ! i) \<and>
            take (length (cdata (colsets w cp ! i))) (cdata (colsets w' cp ! i)) =
              cdata (colsets w cp ! i)"
    unfolding w' using insert_undisturbed by blast
  have other: "\<forall>a. a \<noteq> cp \<longrightarrow> colsets w' a = colsets w a"
    unfolding w' using insert_colsets_other by blast
  show ?thesis using oom ok keep other by blast
qed

theorem ecs_table_insert_spec_witness:
  "unat (snd (ecs_table_insert (\<lambda>i. Moved) w_ab t_ab 0 42)) = 1 \<and>
   cdata (colsets (fst (ecs_table_insert (\<lambda>i. Moved) w_ab t_ab 0 42)) 0 ! 0) = [Handle 42] \<and>
   cdata (colsets (fst (ecs_table_insert (\<lambda>i. Moved) w_ab t_ab 0 42)) 0 ! 1) = [Uninit] \<and>
   cdata (colsets (fst (ecs_table_insert (\<lambda>i. Moved) w_ab t_ab 0 42)) 0 ! 2) = [] \<and>
   activations (fst (ecs_table_insert (\<lambda>i. Moved) w_ab t_ab 0 42)) = [(7, 1, True)]"
proof -
  let ?w = "fst (ecs_table_insert (\<lambda>i. Moved) w_ab t_ab 0 42)"
  let ?r = "snd (ecs_table_insert (\<lambda>i. Moved) w_ab t_ab 0 42)"
  have h1: "length (colsets w_ab 0) = length (ttype t_ab) + 1"
    by (simp add: w_ab_def t_ab_def)
  have h2: "length (cdata (colsets w_ab 0 ! 0)) + 1 < 2 ^ 32"
    by (simp add: w_ab_def)
  have h3: "ecs_table_insert (\<lambda>i. Moved) w_ab t_ab 0 42 = (?w, ?r)"
    by simp
  have ok: "\<not> insert_oom (\<lambda>i. Moved) t_ab (colsets w_ab 0)"
    by (simp add: insert_oom_def)
  have i1: "1 \<in> set [1 ..< length (ttype t_ab) + 1]" and i2: "2 \<in> set [1 ..< length (ttype t_ab) + 1]"
    by (simp_all add: t_ab_def)
  note th = ecs_table_insert_spec [OF h1 h2 h3]
  from th ok have a: "unat ?r = length (cdata (colsets w_ab 0 ! 0)) + 1"
    and b: "cdata (colsets ?w 0 ! 0) = cdata (colsets w_ab 0 ! 0) @ [Handle 42]"
    and c: "\<forall>i\<in>set [1 ..< length (ttype t_ab) + 1].
               colsets ?w 0 ! i =
                 (if csize (colsets w_ab 0 ! i) \<noteq> 0
                  then (colsets w_ab 0 ! i)\<lparr>cdata := cdata (colsets w_ab 0 ! i) @ [Uninit]\<rparr>
                  else colsets w_ab 0 ! i)"
    and d: "cdata (colsets w_ab 0 ! 0) = [] \<and> \<not> in_progress w_ab \<longrightarrow>
               activations ?w =
                 activations w_ab @ map (\<lambda>s. (s, type_id t_ab, True)) (frame_systems t_ab)"
    by blast+
  have "unat ?r = 1" using a by (simp add: w_ab_def)
  moreover have "cdata (colsets ?w 0 ! 0) = [Handle 42]" using b by (simp add: w_ab_def)
  moreover have "cdata (colsets ?w 0 ! 1) = [Uninit]" using bspec [OF c i1] by (simp add: w_ab_def)
  moreover have "cdata (colsets ?w 0 ! 2) = []" using bspec [OF c i2] by (simp add: w_ab_def)
  moreover have "activations ?w = [(7, 1, True)]" using d by (simp add: w_ab_def t_ab_def)
  ultimately show ?thesis by blast
qed

subsection \<open>Grow\<close>

lemma grow_columns_ok:
  assumes "distinct is" and "\<forall>i\<in>set is. i < length cols"
    and "\<forall>i\<in>set is. al i \<noteq> OutOfMemory"
  shows "grow_columns al n is cols r =
           (map (\<lambda>j. if j \<in> set is
                      then (cols ! j)\<lparr>cdata := cdata (cols ! j) @ replicate n Uninit\<rparr> else cols ! j)
                [0 ..< length cols],
            Some (r \<or> (\<exists>i\<in>set is. al i = Moved)))"
  using assms
proof (induction "is" arbitrary: cols r)
  case Nil
  then show ?case by (simp add: map_nth)
next
  case (Cons i "is")
  let ?c = "cols[i := (cols ! i)\<lparr>cdata := cdata (cols ! i) @ replicate n Uninit\<rparr>]"
  have ok: "al i \<noteq> OutOfMemory" using Cons.prems by simp
  have i: "i < length cols" "i \<notin> set is" using Cons.prems by auto
  have "grow_columns al n (i # is) cols r =
          grow_columns al n is ?c (if al i = Moved then True else r)"
    using ok by (simp add: ecs_vector_addn_def)
  also have "\<dots> = (map (\<lambda>j. if j \<in> set is
                      then (?c ! j)\<lparr>cdata := cdata (?c ! j) @ replicate n Uninit\<rparr> else ?c ! j)
                [0 ..< length ?c],
            Some ((if al i = Moved then True else r) \<or> (\<exists>i\<in>set is. al i = Moved)))"
    using Cons.prems i by (intro Cons.IH) (auto simp: nth_list_update)
  finally show ?case using i
    by (auto simp: nth_list_update intro!: nth_equalityI)
qed

lemma grow_fail_first:
  "al 0 = OutOfMemory \<Longrightarrow> ecs_table_grow al w t cp n e = (w, - 1)"
  by (simp add: ecs_table_grow_def ecs_vector_addn_def)

lemma grow_result_ok:
  assumes "al 0 \<noteq> OutOfMemory"
    and "grow_columns al n [1 ..< length (ttype t) + 1] (grow_cols1 (colsets w cp) n e) False = (cols2, Some reallocd)"
  shows "ecs_table_grow al w t cp n e =
     (let w1 = w\<lparr>colsets := (colsets w)(cp := cols2)\<rparr>;
          row_count = (of_nat (length (cdata (cols2 ! 0))) :: 32 word);
          w2 = (if \<not> in_progress w1 \<and> row_count = of_nat n then activate_table w1 t 0 True else w1);
          w3 = (if reallocd \<and> columns t = cp then notify_systems_of_realloc w2 t else w2)
      in (w3, row_count - of_nat n + 1))"
  using assms
  by (simp add: ecs_table_grow_def ecs_vector_addn_def grow_cols1_def Let_def del: upt_Suc)

lemma grow_ok_parts:
  assumes "al 0 \<noteq> OutOfMemory"
    and "grow_columns al n [1 ..< length (ttype t) + 1] (grow_cols1 (colsets w cp) n e) False = (cols2, Some reallocd)"
  shows "colsets (fst (ecs_table_grow al w t cp n e)) cp = cols2"
    and "should_resolve (fst (ecs_table_grow al w t cp n e)) =
           (if reallocd \<and> columns t = cp then True else should_resolve w)"
    and "snd (ecs_table_grow al w t cp n e) = of_nat (length (cdata (cols2 ! 0))) - of_nat n + 1"
  by (simp_all add: grow_result_ok[of al, OF assms] Let_def activate_table_all
        notify_systems_of_realloc_def)

lemma grow_cols1_nth:
  "0 < length cols \<Longrightarrow> grow_cols1 cols n e ! 0 =
     (cols ! 0)\<lparr>cdata := cdata (cols ! 0) @ map (\<lambda>i. Handle (e + of_nat i)) [0 ..< n]\<rparr>"
  "0 < i \<Longrightarrow> grow_cols1 cols n e ! i = cols ! i"
  "length (grow_cols1 cols n e) = length cols"
  by (simp_all add: grow_cols1_def)

lemma grow_ok_columns:
  assumes wf: "length (colsets w cp) = length (ttype t) + 1"
    and ok: "\<not> grow_oom al t"
  shows "grow_columns al n [1 ..< length (ttype t) + 1] (grow_cols1 (colsets w cp) n e) False =
           (map (\<lambda>j. if j \<in> set [1 ..< length (ttype t) + 1]
                      then (grow_cols1 (colsets w cp) n e ! j)
                             \<lparr>cdata := cdata (grow_cols1 (colsets w cp) n e ! j) @ replicate n Uninit\<rparr>
                      else grow_cols1 (colsets w cp) n e ! j)
                [0 ..< length (grow_cols1 (colsets w cp) n e)],
            Some (False \<or> (\<exists>i\<in>set [1 ..< length (ttype t) + 1]. al i = Moved)))"
proof (rule grow_columns_ok)
  show "distinct [1 ..< length (ttype t) + 1]" by simp
  show "\<forall>i\<in>set [1 ..< length (ttype t) + 1]. i < length (grow_cols1 (colsets w cp) n e)"
    using wf by (simp add: grow_cols1_nth del: upt_Suc)
  show "\<forall>i\<in>set [1 ..< length (ttype t) + 1]. al i \<noteq> OutOfMemory"
    using ok unfolding grow_oom_def by blast
qed

lemma insert_ok_flag:
  assumes wf: "length (colsets w cp) = length (ttype t) + 1"
    and ok: "\<not> insert_oom al t (colsets w cp)"
  shows "should_resolve (fst (ecs_table_insert al w t cp e)) =
           (should_resolve w \<or>
            (columns t = cp \<and>
             (\<exists>i\<in>set [1 ..< length (ttype t) + 1]. csize (colsets w cp ! i) \<noteq> 0 \<and> al i = Moved)))"
proof -
  have al0: "al 0 \<noteq> OutOfMemory" using ok unfolding insert_oom_def by simp
  have same: "\<forall>i\<in>set [1 ..< length (ttype t) + 1].
                csize (insert_cols1 (colsets w cp) e ! i) = csize (colsets w cp ! i)"
    by (simp add: insert_cols1_nth del: upt_Suc)
  have "(\<exists>i\<in>set [1 ..< length (ttype t) + 1].
            csize (insert_cols1 (colsets w cp) e ! i) \<noteq> 0 \<and> al i = Moved) =
        (\<exists>i\<in>set [1 ..< length (ttype t) + 1]. csize (colsets w cp ! i) \<noteq> 0 \<and> al i = Moved)"
    using same by (metis (no_types, lifting))
  then show ?thesis
    unfolding insert_ok_parts(3)[of al, OF al0 insert_ok_columns[OF wf ok]] by auto
qed

lemma grow_ok_flag:
  assumes wf: "length (colsets w cp) = length (ttype t) + 1"
    and ok: "\<not> grow_oom al t"
  shows "should_resolve (fst (ecs_table_grow al w t cp n e)) =
           (should_resolve w \<or>
            (columns t = cp \<and> (\<exists>i\<in>set [1 ..< length (ttype t) + 1]. al i = Moved)))"
proof -
  have al0: "al 0 \<noteq> OutOfMemory" using ok unfolding grow_oom_def by simp
  show ?thesis
    unfolding grow_ok_parts(2)[of al, OF al0 grow_ok_columns[OF wf ok]] by auto
qed

subsection \<open>Delete\<close>

lemma delete_move_columns_eq:
  assumes "distinct is" and "\<forall>i\<in>set is. i < length cols"
  shows "delete_move_columns is k cols =
           map (\<lambda>j. if j \<in> set is \<and> csize (cols ! j) \<noteq> 0 then delete_col k (cols ! j) else cols ! j)
             [0 ..< length cols]"
  using assms
proof (induction "is" arbitrary: cols)
  case Nil
  then show ?case by (simp add: map_nth)
next
  case (Cons i "is")
  have i: "i < length cols" "i \<notin> set is" using Cons.prems by auto
  show ?case
  proof (cases "csize (cols ! i) \<noteq> 0")
    case False
    have "delete_move_columns (i # is) k cols = delete_move_columns is k cols"
      using False by simp
    also have "\<dots> = map (\<lambda>j. if j \<in> set is \<and> csize (cols ! j) \<noteq> 0 then delete_col k (cols ! j) else cols ! j)
             [0 ..< length cols]"
      using Cons.prems by (intro Cons.IH) auto
    finally show ?thesis using False by auto
  next
    case True
    let ?c = "cols[i := delete_col k (cols ! i)]"
    have "delete_move_columns (i # is) k cols = delete_move_columns is k ?c"
      using True by (simp add: delete_col_def ecs_vector_remove_index_def)
    also have "\<dots> = map (\<lambda>j. if j \<in> set is \<and> csize (?c ! j) \<noteq> 0 then delete_col k (?c ! j) else ?c ! j)
             [0 ..< length ?c]"
      using Cons.prems i by (intro Cons.IH) (auto simp: nth_list_update)
    finally show ?thesis using True i
      by (auto simp: nth_list_update delete_col_def intro!: nth_equalityI)
  qed
qed

lemma delete_last_columns_eq:
  assumes "distinct is" and "\<forall>i\<in>set is. i < length cols"
  shows "delete_last_columns is cols =
           map (\<lambda>j. if j \<in> set is \<and> csize (cols ! j) \<noteq> 0
                     then (cols ! j)\<lparr>cdata := butlast (cdata (cols ! j))\<rparr> else cols ! j)
             [0 ..< length cols]"
  using assms
proof (induction "is" arbitrary: cols)
  case Nil
  then show ?case by (simp add: map_nth)
next
  case (Cons i "is")
  have i: "i < length cols" "i \<notin> set is" using Cons.prems by auto
  show ?case
  proof (cases "csize (cols ! i) \<noteq> 0")
    case False
    have "delete_last_columns (i # is) cols = delete_last_columns is cols"
      using False by simp
    also have "\<dots> = map (\<lambda>j. if j \<in> set is \<and> csize (cols ! j) \<noteq> 0
                     then (cols ! j)\<lparr>cdata := butlast (cdata (cols ! j))\<rparr> else cols ! j)
             [0 ..< length cols]"
      using Cons.prems by (intro Cons.IH) auto
    finally show ?thesis using False by auto
  next
    case True
    let ?c = "cols[i := (cols ! i)\<lparr>cdata := butlast (cdata (cols ! i))\<rparr>]"
    have "delete_last_columns (i # is) cols = delete_last_columns is ?c"
      using True by (simp add: ecs_vector_remove_last_def)
    also have "\<dots> = map (\<lambda>j. if j \<in> set is \<and> csize (?c ! j) \<noteq> 0
                     then (?c ! j)\<lparr>cdata := butlast (cdata (?c ! j))\<rparr> else ?c ! j)
             [0 ..< length ?c]"
      using Cons.prems i by (intro Cons.IH) (auto simp: nth_list_update)
    finally show ?thesis using True i
      by (auto simp: nth_list_update intro!: nth_equalityI)
  qed
qed

lemma cols_inv_iff:
  "cols_inv cols = (\<forall>i. 0 < i \<and> i < length cols \<and> csize (cols ! i) \<noteq> 0 \<longrightarrow>
      length (cdata (cols ! i)) = length (cdata (cols ! 0)))"
proof
  assume inv: "cols_inv cols"
  show "\<forall>i. 0 < i \<and> i < length cols \<and> csize (cols ! i) \<noteq> 0 \<longrightarrow>
      length (cdata (cols ! i)) = length (cdata (cols ! 0))"
  proof (intro allI impI)
    fix i assume i: "0 < i \<and> i < length cols \<and> csize (cols ! i) \<noteq> 0"
    then obtain m where m: "i = Suc m" by (cases i) auto
    then have ml: "m < length (tl cols)" using i by auto
    then have "csize (tl cols ! m) = 0 \<or> length (cdata (tl cols ! m)) = length (cdata (cols ! 0))"
      using inv unfolding cols_inv_def list_all_length by blast
    moreover have "tl cols ! m = cols ! i" using m ml by (simp add: nth_tl)
    ultimately show "length (cdata (cols ! i)) = length (cdata (cols ! 0))" using i by simp
  qed
next
  assume h: "\<forall>i. 0 < i \<and> i < length cols \<and> csize (cols ! i) \<noteq> 0 \<longrightarrow>
      length (cdata (cols ! i)) = length (cdata (cols ! 0))"
  show "cols_inv cols"
    unfolding cols_inv_def list_all_length
  proof (intro allI impI)
    fix m assume m: "m < length (tl cols)"
    then have "0 < Suc m \<and> Suc m < length cols" by simp
    moreover have "tl cols ! m = cols ! Suc m" using m by (simp add: nth_tl)
    ultimately show "csize (tl cols ! m) = 0 \<or> length (cdata (tl cols ! m)) = length (cdata (cols ! 0))"
      using h by metis
  qed
qed

lemma delete_index_norm:
  assumes "0 < k" "k < 2 ^ 31" "index = of_nat k \<or> index = - of_nat k"
  shows "(if sint (index :: 32 word) < 0 then index * (- 1) else index) - 1 = of_nat (k - 1)"
proof -
  have "(if sint index < 0 then index * (- 1) else index) = of_nat k"
    using assms(3)
  proof
    assume "index = of_nat k"
    then show ?thesis using assms(2) by (simp add: w32_sint_of_nat)
  next
    assume "index = - of_nat k"
    then show ?thesis using assms(1,2) by (simp add: w32_sint_neg_of_nat)
  qed
  then show ?thesis by (simp only: w32_pred [OF assms(1)])
qed


lemma delete_result:
  assumes n: "n = length (cdata (colsets w (columns t) ! 0))" "n < 2 ^ 32"
    and k: "0 < k" "k \<le> n" "k < 2 ^ 31"
    and idx: "index = of_nat k \<or> index = - of_nat k"
  shows "ecs_table_delete w t index =
     Inr (let cols = colsets w (columns t);
              entity_column = cdata (cols ! 0);
              w1 =
                (if k \<noteq> n then
                   (let to_move = entity_column ! (n - 1);
                        entities = entity_column[k - 1 := to_move];
                        cols1 = cols[0 := (cols ! 0)\<lparr>cdata := entities\<rparr>];
                        cols2 = delete_move_columns [1 ..< length (ttype t) + 1] (k - 1) cols1;
                        row = \<lparr>row_type_id = type_id t, row_index = of_nat k\<rparr>;
                        ei = (entity_index w)(entity_of to_move \<mapsto> row);
                        cols3 = cols2[0 := (cols2 ! 0)
                                  \<lparr>cdata := ecs_vector_remove_last (cdata (cols2 ! 0))\<rparr>]
                    in w\<lparr>colsets := (colsets w)(columns t := cols3), entity_index := ei\<rparr>)
                 else
                   (let cols1 = cols[0 := (cols ! 0)
                                  \<lparr>cdata := ecs_vector_remove_last entity_column\<rparr>];
                        cols2 = delete_last_columns [1 ..< length (ttype t) + 1] cols1
                    in w\<lparr>colsets := (colsets w)(columns t := cols2)\<rparr>))
          in (if \<not> in_progress w1 \<and> n = 1 then activate_table w1 t 0 False else w1))"
proof -
  let ?n = "length (cdata (colsets w (columns t) ! 0))"
  have n0: "0 < ?n" "?n < 2 ^ 32" "k - 1 < 2 ^ 32" "?n - 1 < 2 ^ 32" using n k by auto
  have kn: "k \<le> ?n" using n k by simp
  have i: "(if sint index < 0 then index * (- 1) else index) - 1 = of_nat (k - 1)"
    using k idx by (intro delete_index_norm) simp_all
  have c0: "((of_nat ?n :: 32 word) = 0) = False"
    using n0(1,2) by (simp add: word32_of_nat_eq_0)
  have c1: "(of_nat ?n :: 32 word) - 1 = of_nat (?n - 1)"
    using n0(1) by (rule w32_pred)
  have "k - 1 \<le> ?n - 1" using kn by simp
  then have le: "((of_nat (k - 1) :: 32 word) \<le> of_nat (?n - 1)) = True"
    using w32_le [OF n0(3) n0(4)] by simp
  have "(k - 1 = ?n - 1) = (k = ?n)" using k(1) n0(1) by arith
  then have eq: "((of_nat (k - 1) :: 32 word) = of_nat (?n - 1)) = (k = ?n)"
    using w32_eq [OF n0(3) n0(4)] by simp
  have u: "unat (of_nat (k - 1) :: 32 word) = k - 1" "unat (of_nat (?n - 1) :: 32 word) = ?n - 1"
    using n0 by (simp_all add: w32_unat)
  have p: "(of_nat (k - 1) :: 32 word) + 1 = of_nat k"
    using k(1) by (cases k) simp_all
  have "(?n - 1 = 0) = (?n = 1)" using n0(1) by arith
  then have z: "((of_nat (?n - 1) :: 32 word) = 0) = (?n = 1)"
    using word32_of_nat_eq_0 [OF n0(4)] by simp
  show ?thesis
    unfolding ecs_table_delete_def Let_def i c1 n(1)
    by (simp only: c0 le eq u p z if_False if_True not_True_eq_False simp_thms)
qed




lemma delete_col_last:
  assumes "length (cdata c) = n" "0 < n"
  shows "delete_col (n - 1) c = c\<lparr>cdata := butlast (cdata c)\<rparr>"
proof -
  have "cdata c \<noteq> []" using assms by auto
  then have "last (cdata c) = cdata c ! (n - 1)" using assms(1) by (simp add: last_conv_nth)
  then have "(cdata c)[n - 1 := last (cdata c)] = cdata c" by simp
  then show ?thesis by (simp add: delete_col_def)
qed

lemma delete_world:
  assumes wf: "length (colsets w (columns t)) = length (ttype t) + 1"
    and inv: "cols_inv (colsets w (columns t))"
    and n: "n = length (cdata (colsets w (columns t) ! 0))" "n < 2 ^ 32"
    and k: "0 < k" "k \<le> n" "k < 2 ^ 31"
    and idx: "index = of_nat k \<or> index = - of_nat k"
  shows "\<exists>w'. ecs_table_delete w t index = Inr w' \<and>
           colsets w' = (colsets w)(columns t := delete_cols (k - 1) (colsets w (columns t))) \<and>
           entity_index w' =
             (if k \<noteq> n
              then (entity_index w)(entity_of (cdata (colsets w (columns t) ! 0) ! (n - 1)) \<mapsto>
                     \<lparr>row_type_id = type_id t, row_index = of_nat k\<rparr>)
              else entity_index w) \<and>
           activations w' =
             (if \<not> in_progress w \<and> n = 1
              then activations w @ map (\<lambda>s. (s, type_id t, False)) (frame_systems t)
              else activations w) \<and>
           in_progress w' = in_progress w \<and> should_resolve w' = should_resolve w"
proof -
  let ?cols = "colsets w (columns t)"
  let ?ec = "cdata (?cols ! 0)"
  let ?is = "[1 ..< length (ttype t) + 1]"
  have n0: "0 < n" using k by simp
  have len: "0 < length ?cols" using wf by simp
  have lastec: "last ?ec = ?ec ! (n - 1)"
    using n n0 by (simp add: last_conv_nth)
  have dis: "distinct ?is" by simp
  show ?thesis
  proof (cases "k = n")
    case False
    let ?c1 = "?cols[0 := (?cols ! 0)\<lparr>cdata := ?ec[k - 1 := ?ec ! (n - 1)]\<rparr>]"
    let ?c2 = "delete_move_columns ?is (k - 1) ?c1"
    let ?c3 = "?c2[0 := (?c2 ! 0)\<lparr>cdata := ecs_vector_remove_last (cdata (?c2 ! 0))\<rparr>]"
    have rng: "\<forall>i\<in>set ?is. i < length ?c1" using wf by (simp del: upt_Suc)
    have c2: "?c2 = map (\<lambda>j. if j \<in> set ?is \<and> csize (?c1 ! j) \<noteq> 0
                              then delete_col (k - 1) (?c1 ! j) else ?c1 ! j) [0 ..< length ?c1]"
      using dis rng by (rule delete_move_columns_eq)
    have c3: "?c3 = delete_cols (k - 1) ?cols"
    proof (rule nth_equalityI)
      show "length ?c3 = length (delete_cols (k - 1) ?cols)"
        unfolding c2 by (simp add: delete_cols_def)
      fix j assume "j < length ?c3"
      then have j: "j < length ?cols" unfolding c2 by simp
      show "?c3 ! j = delete_cols (k - 1) ?cols ! j"
      proof (cases "j = 0")
        case True
        have "?c2 ! 0 = ?c1 ! 0" unfolding c2 using len by (simp del: upt_Suc)
        then have "?c3 ! 0 = (?cols ! 0)\<lparr>cdata := butlast (?ec[k - 1 := ?ec ! (n - 1)])\<rparr>"
          unfolding c2 using len by (simp add: ecs_vector_remove_last_def del: upt_Suc)
        then show ?thesis using True len lastec
          by (simp add: delete_cols_def delete_col_def del: upt_Suc)
      next
        case False
        then have "j \<in> set ?is" using j wf by (auto simp del: upt_Suc)
        then have "?c2 ! j = (if csize (?cols ! j) \<noteq> 0 then delete_col (k - 1) (?cols ! j) else ?cols ! j)"
          unfolding c2 using j False by (simp del: upt_Suc)
        then show ?thesis using False j
          by (simp add: delete_cols_def del: upt_Suc)
      qed
    qed
    show ?thesis
      unfolding delete_result [OF n k idx] Let_def if_not_P [OF False] if_P [OF False] c3
      by (simp add: activate_table_all del: upt_Suc)
  next
    case True
    let ?c1 = "?cols[0 := (?cols ! 0)\<lparr>cdata := ecs_vector_remove_last ?ec\<rparr>]"
    let ?c2 = "delete_last_columns ?is ?c1"
    have rng: "\<forall>i\<in>set ?is. i < length ?c1" using wf by (simp del: upt_Suc)
    have c2: "?c2 = map (\<lambda>j. if j \<in> set ?is \<and> csize (?c1 ! j) \<noteq> 0
                              then (?c1 ! j)\<lparr>cdata := butlast (cdata (?c1 ! j))\<rparr> else ?c1 ! j)
                      [0 ..< length ?c1]"
      using dis rng by (rule delete_last_columns_eq)
    have c3: "?c2 = delete_cols (k - 1) ?cols"
    proof (rule nth_equalityI)
      show "length ?c2 = length (delete_cols (k - 1) ?cols)"
        unfolding c2 by (simp add: delete_cols_def)
      fix j assume "j < length ?c2"
      then have j: "j < length ?cols" unfolding c2 by simp
      show "?c2 ! j = delete_cols (k - 1) ?cols ! j"
      proof (cases "j = 0")
        case j0: True
        have "?c2 ! 0 = (?cols ! 0)\<lparr>cdata := butlast ?ec\<rparr>"
          unfolding c2 using len by (simp add: ecs_vector_remove_last_def del: upt_Suc)
        moreover have "delete_col (n - 1) (?cols ! 0) = (?cols ! 0)\<lparr>cdata := butlast ?ec\<rparr>"
          using n(1) n0 by (intro delete_col_last) simp_all
        ultimately show ?thesis using j0 len True
          by (simp add: delete_cols_def del: upt_Suc)
      next
        case False
        then have jin: "j \<in> set ?is" using j wf by (auto simp del: upt_Suc)
        have c2j: "?c2 ! j = (if csize (?cols ! j) \<noteq> 0
                        then (?cols ! j)\<lparr>cdata := butlast (cdata (?cols ! j))\<rparr> else ?cols ! j)"
          unfolding c2 using j False jin by (simp del: upt_Suc)
        show ?thesis
        proof (cases "csize (?cols ! j) \<noteq> 0")
          case nz: True
          have "length (cdata (?cols ! j)) = n"
            using inv False j nz n(1) by (simp add: cols_inv_iff)
          then have "delete_col (n - 1) (?cols ! j) = (?cols ! j)\<lparr>cdata := butlast (cdata (?cols ! j))\<rparr>"
            using n0 by (rule delete_col_last)
          then show ?thesis using c2j nz j False True
            by (simp add: delete_cols_def del: upt_Suc)
        next
          case z: False
          then show ?thesis using c2j j False
            by (simp add: delete_cols_def del: upt_Suc)
        qed
      qed
    qed
    show ?thesis
      unfolding delete_result [OF n k idx] Let_def
      using True unfolding if_not_P [OF not_not [THEN iffD2, OF True]] c3
      by (simp add: activate_table_all del: upt_Suc)
  qed
qed

lemma delete_col_nth:
  assumes "length (cdata c) = n" "j < n - 1"
  shows "cdata (delete_col k c) ! j = (if j = k then cdata c ! (n - 1) else cdata c ! j)"
proof -
  have ne: "cdata c \<noteq> []" using assms by auto
  have l: "last (cdata c) = cdata c ! (n - 1)" using assms(1) ne by (simp add: last_conv_nth)
  have "cdata (delete_col k c) ! j = ((cdata c)[k := last (cdata c)]) ! j"
    using assms by (simp add: delete_col_def nth_butlast)
  also have "\<dots> = (if j = k then cdata c ! (n - 1) else cdata c ! j)"
    using assms l by (simp add: nth_list_update)
  finally show ?thesis .
qed

lemma delete_col_length: "length (cdata (delete_col k c)) = length (cdata c) - 1"
  by (simp add: delete_col_def)

lemma delete_cols_nth:
  "i < length cols \<Longrightarrow> delete_cols k cols ! i =
     (if i = 0 \<or> csize (cols ! i) \<noteq> 0 then delete_col k (cols ! i) else cols ! i)"
  by (simp add: delete_cols_def)

text \<open>
  Claim C2, as amended. For a table whose primary columns satisfy the storage invariant
  and hold \<open>n > 0\<close> rows, and a valid 1-based index \<open>k\<close> given as \<open>k\<close> or as \<open>-k\<close>:
  \<open>ecs_table_delete\<close> succeeds and column 0 has \<open>n - 1\<close> rows afterwards. If \<open>k < n\<close>,
  the entity stored last now occupies position \<open>k\<close> of column 0, the last element of
  every data column of non-zero size occupies position \<open>k\<close> of that column, and the
  entity index maps the moved entity to row \<open>k\<close>. If \<open>k = n\<close>, the last row is dropped
  and the entity index is unchanged. Every other row is where it was, the zero-size
  columns are untouched, and if the table becomes empty and the world is not in progress,
  every registered system is sent the deactivation of the table.
\<close>

theorem ecs_table_delete_spec:
  assumes "length (colsets w (columns t)) = length (ttype t) + 1"
    and "cols_inv (colsets w (columns t))"
    and "n = length (cdata (colsets w (columns t) ! 0))" and "n < 2 ^ 32"
    and "0 < k" and "k \<le> n" and "k < 2 ^ 31"
    and "index = of_nat k \<or> index = - of_nat k"
  shows "\<exists>w'. ecs_table_delete w t index = Inr w' \<and>
           length (cdata (colsets w' (columns t) ! 0)) = n - 1 \<and>
           (k < n \<longrightarrow>
              cdata (colsets w' (columns t) ! 0) ! (k - 1) =
                cdata (colsets w (columns t) ! 0) ! (n - 1) \<and>
              (\<forall>i\<in>set [1 ..< length (ttype t) + 1].
                 csize (colsets w (columns t) ! i) \<noteq> 0 \<longrightarrow>
                 cdata (colsets w' (columns t) ! i) ! (k - 1) =
                   cdata (colsets w (columns t) ! i) ! (n - 1)) \<and>
              entity_index w' (entity_of (cdata (colsets w (columns t) ! 0) ! (n - 1))) =
                Some \<lparr>row_type_id = type_id t, row_index = of_nat k\<rparr>) \<and>
           (k = n \<longrightarrow> entity_index w' = entity_index w) \<and>
           (\<forall>i<length (colsets w (columns t)).
              (if i = 0 \<or> csize (colsets w (columns t) ! i) \<noteq> 0
               then length (cdata (colsets w' (columns t) ! i)) = n - 1 \<and>
                    (\<forall>j<n - 1. j \<noteq> k - 1 \<longrightarrow>
                       cdata (colsets w' (columns t) ! i) ! j =
                         cdata (colsets w (columns t) ! i) ! j)
               else colsets w' (columns t) ! i = colsets w (columns t) ! i)) \<and>
           (n = 1 \<and> \<not> in_progress w \<longrightarrow>
              activations w' =
                activations w @ map (\<lambda>s. (s, type_id t, False)) (frame_systems t))"
proof -
  let ?cols = "colsets w (columns t)"
  obtain w' where run: "ecs_table_delete w t index = Inr w'"
    and cs: "colsets w' = (colsets w)(columns t := delete_cols (k - 1) ?cols)"
    and ei: "entity_index w' =
             (if k \<noteq> n
              then (entity_index w)(entity_of (cdata (?cols ! 0) ! (n - 1)) \<mapsto>
                     \<lparr>row_type_id = type_id t, row_index = of_nat k\<rparr>)
              else entity_index w)"
    and ac: "activations w' =
             (if \<not> in_progress w \<and> n = 1
              then activations w @ map (\<lambda>s. (s, type_id t, False)) (frame_systems t)
              else activations w)"
    using delete_world [OF assms] by blast
  have cs': "colsets w' (columns t) = delete_cols (k - 1) ?cols"
    unfolding cs by simp
  have len0: "0 < length ?cols" using assms(1) by simp
  have lens: "\<And>i. i < length ?cols \<Longrightarrow> i = 0 \<or> csize (?cols ! i) \<noteq> 0 \<Longrightarrow>
                length (cdata (?cols ! i)) = n"
    using assms(2,3) by (metis cols_inv_iff not_gr_zero)
  have col: "\<And>i. i < length ?cols \<Longrightarrow> i = 0 \<or> csize (?cols ! i) \<noteq> 0 \<Longrightarrow>
               colsets w' (columns t) ! i = delete_col (k - 1) (?cols ! i)"
    unfolding cs' by (simp add: delete_cols_nth)
  have p1: "length (cdata (colsets w' (columns t) ! 0)) = n - 1"
    using col [OF len0] lens [OF len0] by (simp add: delete_col_length)
  have moved: "\<And>i. i < length ?cols \<Longrightarrow> i = 0 \<or> csize (?cols ! i) \<noteq> 0 \<Longrightarrow> k < n \<Longrightarrow>
                 cdata (colsets w' (columns t) ! i) ! (k - 1) = cdata (?cols ! i) ! (n - 1)"
  proof -
    fix i assume i: "i < length ?cols" "i = 0 \<or> csize (?cols ! i) \<noteq> 0" and kn: "k < n"
    have "k - 1 < n - 1" using kn assms(5) by arith
    then show "cdata (colsets w' (columns t) ! i) ! (k - 1) = cdata (?cols ! i) ! (n - 1)"
      unfolding col [OF i] using delete_col_nth [OF lens [OF i], of "k - 1" "k - 1"] by simp
  qed
  have p2: "k < n \<longrightarrow>
              cdata (colsets w' (columns t) ! 0) ! (k - 1) = cdata (?cols ! 0) ! (n - 1) \<and>
              (\<forall>i\<in>set [1 ..< length (ttype t) + 1].
                 csize (?cols ! i) \<noteq> 0 \<longrightarrow>
                 cdata (colsets w' (columns t) ! i) ! (k - 1) = cdata (?cols ! i) ! (n - 1)) \<and>
              entity_index w' (entity_of (cdata (?cols ! 0) ! (n - 1))) =
                Some \<lparr>row_type_id = type_id t, row_index = of_nat k\<rparr>"
  proof
    assume kn: "k < n"
    have a: "cdata (colsets w' (columns t) ! 0) ! (k - 1) = cdata (?cols ! 0) ! (n - 1)"
      using moved [OF len0 _ kn] by simp
    have b: "\<forall>i\<in>set [1 ..< length (ttype t) + 1].
                 csize (?cols ! i) \<noteq> 0 \<longrightarrow>
                 cdata (colsets w' (columns t) ! i) ! (k - 1) = cdata (?cols ! i) ! (n - 1)"
    proof (intro ballI impI)
      fix i assume "i \<in> set [1 ..< length (ttype t) + 1]" and nz: "csize (?cols ! i) \<noteq> 0"
      then have "i < length ?cols" using assms(1) by (simp del: upt_Suc)
      then show "cdata (colsets w' (columns t) ! i) ! (k - 1) = cdata (?cols ! i) ! (n - 1)"
        using moved nz kn by blast
    qed
    have c: "entity_index w' (entity_of (cdata (?cols ! 0) ! (n - 1))) =
                Some \<lparr>row_type_id = type_id t, row_index = of_nat k\<rparr>"
      unfolding ei using kn by simp
    show "cdata (colsets w' (columns t) ! 0) ! (k - 1) = cdata (?cols ! 0) ! (n - 1) \<and>
              (\<forall>i\<in>set [1 ..< length (ttype t) + 1].
                 csize (?cols ! i) \<noteq> 0 \<longrightarrow>
                 cdata (colsets w' (columns t) ! i) ! (k - 1) = cdata (?cols ! i) ! (n - 1)) \<and>
              entity_index w' (entity_of (cdata (?cols ! 0) ! (n - 1))) =
                Some \<lparr>row_type_id = type_id t, row_index = of_nat k\<rparr>"
      using a b c by blast
  qed
  have p3: "k = n \<longrightarrow> entity_index w' = entity_index w"
    unfolding ei by simp
  have p4: "\<forall>i<length ?cols.
              (if i = 0 \<or> csize (?cols ! i) \<noteq> 0
               then length (cdata (colsets w' (columns t) ! i)) = n - 1 \<and>
                    (\<forall>j<n - 1. j \<noteq> k - 1 \<longrightarrow>
                       cdata (colsets w' (columns t) ! i) ! j = cdata (?cols ! i) ! j)
               else colsets w' (columns t) ! i = ?cols ! i)"
  proof (intro allI impI)
    fix i assume i: "i < length ?cols"
    show "if i = 0 \<or> csize (?cols ! i) \<noteq> 0
          then length (cdata (colsets w' (columns t) ! i)) = n - 1 \<and>
               (\<forall>j<n - 1. j \<noteq> k - 1 \<longrightarrow>
                  cdata (colsets w' (columns t) ! i) ! j = cdata (?cols ! i) ! j)
          else colsets w' (columns t) ! i = ?cols ! i"
    proof (cases "i = 0 \<or> csize (?cols ! i) \<noteq> 0")
      case True
      have "length (cdata (colsets w' (columns t) ! i)) = n - 1"
        unfolding col [OF i True] using lens [OF i True] by (simp add: delete_col_length)
      moreover have "\<forall>j<n - 1. j \<noteq> k - 1 \<longrightarrow>
                  cdata (colsets w' (columns t) ! i) ! j = cdata (?cols ! i) ! j"
        unfolding col [OF i True] using delete_col_nth [OF lens [OF i True]] by simp
      ultimately show ?thesis using True by simp
    next
      case False
      then show ?thesis unfolding cs' using i by (simp add: delete_cols_nth)
    qed
  qed
  have p5: "n = 1 \<and> \<not> in_progress w \<longrightarrow>
              activations w' =
                activations w @ map (\<lambda>s. (s, type_id t, False)) (frame_systems t)"
    unfolding ac by simp
  show ?thesis using run p1 p2 p3 p4 p5 by blast
qed

theorem ecs_table_delete_spec_witness:
  "\<exists>w'. ecs_table_delete w_two t_ab 1 = Inr w' \<and>
     cdata (colsets w' 0 ! 0) = [Handle 2] \<and>
     cdata (colsets w' 0 ! 1) ! 0 = Raw [2] \<and>
     entity_index w' 2 = Some \<lparr>row_type_id = 1, row_index = 1\<rparr>"
proof -
  have h1: "length (colsets w_two (columns t_ab)) = length (ttype t_ab) + 1"
    by (simp add: w_two_def t_ab_def)
  have h2: "cols_inv (colsets w_two (columns t_ab))"
    by (simp add: w_two_def t_ab_def cols_inv_def)
  have h3: "2 = length (cdata (colsets w_two (columns t_ab) ! 0))"
    by (simp add: w_two_def t_ab_def)
  have h8: "(1 :: 32 word) = of_nat 1 \<or> (1 :: 32 word) = - of_nat 1"
    by simp
  have i1: "1 \<in> set [1 ..< length (ttype t_ab) + 1]"
    by (simp add: t_ab_def)
  obtain w' where run: "ecs_table_delete w_two t_ab 1 = Inr w'"
    and l: "length (cdata (colsets w' (columns t_ab) ! 0)) = 2 - 1"
    and m: "(1 :: nat) < 2 \<longrightarrow>
              cdata (colsets w' (columns t_ab) ! 0) ! (1 - 1) =
                cdata (colsets w_two (columns t_ab) ! 0) ! (2 - 1) \<and>
              (\<forall>i\<in>set [1 ..< length (ttype t_ab) + 1].
                 csize (colsets w_two (columns t_ab) ! i) \<noteq> 0 \<longrightarrow>
                 cdata (colsets w' (columns t_ab) ! i) ! (1 - 1) =
                   cdata (colsets w_two (columns t_ab) ! i) ! (2 - 1)) \<and>
              entity_index w' (entity_of (cdata (colsets w_two (columns t_ab) ! 0) ! (2 - 1))) =
                Some \<lparr>row_type_id = type_id t_ab, row_index = of_nat 1\<rparr>"
    using ecs_table_delete_spec [OF h1 h2 h3 _ _ _ _ h8] by auto
  have c0: "cdata (colsets w' 0 ! 0) ! 0 = Handle 2"
    using m by (simp add: w_two_def t_ab_def)
  have "length (cdata (colsets w' 0 ! 0)) = 1"
    using l by (simp add: t_ab_def)
  then have a: "cdata (colsets w' 0 ! 0) = [Handle 2]"
    using c0 by (cases "cdata (colsets w' 0 ! 0)") simp_all
  have b: "cdata (colsets w' 0 ! 1) ! 0 = Raw [2]"
    using m i1 by (simp add: w_two_def t_ab_def)
  have c: "entity_index w' 2 = Some \<lparr>row_type_id = 1, row_index = 1\<rparr>"
    using m by (simp add: w_two_def t_ab_def)
  show ?thesis using run a b c by blast
qed

theorem ecs_table_delete_counterexample:
  "\<not> isl (ecs_table_delete w_two t_ab 2) \<and>
   cdata (colsets w_two 0 ! 0) = [Handle 1, Handle 2] \<and>
   cdata (colsets (projr (ecs_table_delete w_two t_ab 2)) 0 ! 0) = [Handle 1]"
  by (simp add: ecs_table_delete_def w_two_def t_ab_def Let_def ecs_vector_remove_last_def
      activate_table_def)

subsection \<open>The storage invariant\<close>

lemma insert_ok_colset:
  assumes wf: "length (colsets w cp) = length (ttype t) + 1"
    and ok: "\<not> insert_oom al t (colsets w cp)"
  shows "colsets (fst (ecs_table_insert al w t cp e)) cp =
           map (\<lambda>j. if j = 0 then (colsets w cp ! 0)\<lparr>cdata := cdata (colsets w cp ! 0) @ [Handle e]\<rparr>
                     else if csize (colsets w cp ! j) \<noteq> 0
                     then (colsets w cp ! j)\<lparr>cdata := cdata (colsets w cp ! j) @ [Uninit]\<rparr>
                     else colsets w cp ! j)
             [0 ..< length (colsets w cp)]"
proof -
  have al0: "al 0 \<noteq> OutOfMemory" using ok unfolding insert_oom_def by simp
  show ?thesis
    unfolding insert_colset_cp [of al, OF al0] insert_ok_columns [OF wf ok]
    using wf
    by (auto simp: insert_cols1_nth simp del: upt_Suc)
qed

lemma grow_ok_colset:
  assumes wf: "length (colsets w cp) = length (ttype t) + 1"
    and ok: "\<not> grow_oom al t"
  shows "colsets (fst (ecs_table_grow al w t cp n e)) cp =
           map (\<lambda>j. if j = 0
                     then (colsets w cp ! 0)\<lparr>cdata := cdata (colsets w cp ! 0) @
                            map (\<lambda>i. Handle (e + of_nat i)) [0 ..< n]\<rparr>
                     else (colsets w cp ! j)\<lparr>cdata := cdata (colsets w cp ! j) @ replicate n Uninit\<rparr>)
             [0 ..< length (colsets w cp)]"
proof -
  have al0: "al 0 \<noteq> OutOfMemory" using ok unfolding grow_oom_def by simp
  show ?thesis
    unfolding grow_ok_parts(1) [of al, OF al0 grow_ok_columns [OF wf ok]]
    using wf
    by (auto simp: grow_cols1_nth simp del: upt_Suc)
qed

lemma tags_empty_iff:
  "tags_empty cols = (\<forall>i. 0 < i \<and> i < length cols \<and> csize (cols ! i) = 0 \<longrightarrow> cdata (cols ! i) = [])"
proof
  assume te: "tags_empty cols"
  show "\<forall>i. 0 < i \<and> i < length cols \<and> csize (cols ! i) = 0 \<longrightarrow> cdata (cols ! i) = []"
  proof (intro allI impI)
    fix i assume i: "0 < i \<and> i < length cols \<and> csize (cols ! i) = 0"
    then obtain m where m: "i = Suc m" by (cases i) auto
    then have ml: "m < length (tl cols)" using i by auto
    then have "csize (tl cols ! m) = 0 \<longrightarrow> cdata (tl cols ! m) = []"
      using te unfolding tags_empty_def list_all_length by blast
    moreover have "tl cols ! m = cols ! i" using m ml by (simp add: nth_tl)
    ultimately show "cdata (cols ! i) = []" using i by simp
  qed
next
  assume h: "\<forall>i. 0 < i \<and> i < length cols \<and> csize (cols ! i) = 0 \<longrightarrow> cdata (cols ! i) = []"
  show "tags_empty cols"
    unfolding tags_empty_def list_all_length
  proof (intro allI impI)
    fix m assume m: "m < length (tl cols)" and z: "csize (tl cols ! m) = 0"
    then have "0 < Suc m \<and> Suc m < length cols" by simp
    moreover have "tl cols ! m = cols ! Suc m" using m by (simp add: nth_tl)
    ultimately show "cdata (tl cols ! m) = []"
      using h z by metis
  qed
qed

lemma insert_ok_nth:
  assumes wf: "length (colsets w cp) = length (ttype t) + 1"
    and ok: "\<not> insert_oom al t (colsets w cp)"
  shows "length (colsets (fst (ecs_table_insert al w t cp e)) cp) = length (colsets w cp)"
    and "colsets (fst (ecs_table_insert al w t cp e)) cp ! 0 =
           (colsets w cp ! 0)\<lparr>cdata := cdata (colsets w cp ! 0) @ [Handle e]\<rparr>"
    and "0 < j \<Longrightarrow> j < length (colsets w cp) \<Longrightarrow>
           colsets (fst (ecs_table_insert al w t cp e)) cp ! j =
             (if csize (colsets w cp ! j) \<noteq> 0
              then (colsets w cp ! j)\<lparr>cdata := cdata (colsets w cp ! j) @ [Uninit]\<rparr>
              else colsets w cp ! j)"
proof -
  have l: "0 < length (colsets w cp)" using wf by simp
  show "length (colsets (fst (ecs_table_insert al w t cp e)) cp) = length (colsets w cp)"
    unfolding insert_ok_colset [OF wf ok] by simp
  show "colsets (fst (ecs_table_insert al w t cp e)) cp ! 0 =
           (colsets w cp ! 0)\<lparr>cdata := cdata (colsets w cp ! 0) @ [Handle e]\<rparr>"
    unfolding insert_ok_colset [OF wf ok] using l by (simp del: upt_Suc)
  show "0 < j \<Longrightarrow> j < length (colsets w cp) \<Longrightarrow>
           colsets (fst (ecs_table_insert al w t cp e)) cp ! j =
             (if csize (colsets w cp ! j) \<noteq> 0
              then (colsets w cp ! j)\<lparr>cdata := cdata (colsets w cp ! j) @ [Uninit]\<rparr>
              else colsets w cp ! j)"
    unfolding insert_ok_colset [OF wf ok] by (simp del: upt_Suc)
qed

lemma grow_ok_nth:
  assumes wf: "length (colsets w cp) = length (ttype t) + 1"
    and ok: "\<not> grow_oom al t"
  shows "length (colsets (fst (ecs_table_grow al w t cp n e)) cp) = length (colsets w cp)"
    and "colsets (fst (ecs_table_grow al w t cp n e)) cp ! 0 =
           (colsets w cp ! 0)\<lparr>cdata := cdata (colsets w cp ! 0) @
              map (\<lambda>i. Handle (e + of_nat i)) [0 ..< n]\<rparr>"
    and "0 < j \<Longrightarrow> j < length (colsets w cp) \<Longrightarrow>
           colsets (fst (ecs_table_grow al w t cp n e)) cp ! j =
             (colsets w cp ! j)\<lparr>cdata := cdata (colsets w cp ! j) @ replicate n Uninit\<rparr>"
proof -
  have l: "0 < length (colsets w cp)" using wf by simp
  show "length (colsets (fst (ecs_table_grow al w t cp n e)) cp) = length (colsets w cp)"
    unfolding grow_ok_colset [OF wf ok] by simp
  show "colsets (fst (ecs_table_grow al w t cp n e)) cp ! 0 =
           (colsets w cp ! 0)\<lparr>cdata := cdata (colsets w cp ! 0) @
              map (\<lambda>i. Handle (e + of_nat i)) [0 ..< n]\<rparr>"
    unfolding grow_ok_colset [OF wf ok] using l by (simp del: upt_Suc)
  show "0 < j \<Longrightarrow> j < length (colsets w cp) \<Longrightarrow>
           colsets (fst (ecs_table_grow al w t cp n e)) cp ! j =
             (colsets w cp ! j)\<lparr>cdata := cdata (colsets w cp ! j) @ replicate n Uninit\<rparr>"
    unfolding grow_ok_colset [OF wf ok] by (simp del: upt_Suc)
qed

lemma insert_preserves_inv:
  assumes wf: "length (colsets w cp) = length (ttype t) + 1"
    and ok: "\<not> insert_oom al t (colsets w cp)"
    and inv: "cols_inv (colsets w cp)"
  shows "cols_inv (colsets (fst (ecs_table_insert al w t cp e)) cp)"
  unfolding cols_inv_iff
proof (intro allI impI)
  let ?c = "colsets w cp" and ?c' = "colsets (fst (ecs_table_insert al w t cp e)) cp"
  fix i assume i: "0 < i \<and> i < length ?c' \<and> csize (?c' ! i) \<noteq> 0"
  note n = insert_ok_nth [OF wf ok, where e = e]
  have il: "i < length ?c" using i n(1) by simp
  have nz: "csize (?c ! i) \<noteq> 0" using i n(3) [of i] il by (auto split: if_splits)
  then have "length (cdata (?c' ! i)) = length (cdata (?c ! i)) + 1"
    using n(3) [of i] i il by simp
  moreover have "length (cdata (?c ! i)) = length (cdata (?c ! 0))"
    using inv i il nz unfolding cols_inv_iff by blast
  moreover have "length (cdata (?c' ! 0)) = length (cdata (?c ! 0)) + 1"
    unfolding n(2) by simp
  ultimately show "length (cdata (?c' ! i)) = length (cdata (?c' ! 0))" by simp
qed

lemma insert_preserves_tags:
  assumes wf: "length (colsets w cp) = length (ttype t) + 1"
    and ok: "\<not> insert_oom al t (colsets w cp)"
    and te: "tags_empty (colsets w cp)"
  shows "tags_empty (colsets (fst (ecs_table_insert al w t cp e)) cp)"
  unfolding tags_empty_iff
proof (intro allI impI)
  let ?c = "colsets w cp" and ?c' = "colsets (fst (ecs_table_insert al w t cp e)) cp"
  fix i assume i: "0 < i \<and> i < length ?c' \<and> csize (?c' ! i) = 0"
  note n = insert_ok_nth [OF wf ok, where e = e]
  have il: "i < length ?c" using i n(1) by simp
  have z: "csize (?c ! i) = 0" using i n(3) [of i] il by (auto split: if_splits)
  then have "?c' ! i = ?c ! i" using n(3) [of i] i il by simp
  moreover have "cdata (?c ! i) = []"
    using te i il z unfolding tags_empty_iff by blast
  ultimately show "cdata (?c' ! i) = []" by simp
qed

lemma grow_preserves_inv:
  assumes wf: "length (colsets w cp) = length (ttype t) + 1"
    and ok: "\<not> grow_oom al t"
    and inv: "cols_inv (colsets w cp)"
  shows "cols_inv (colsets (fst (ecs_table_grow al w t cp n e)) cp)"
  unfolding cols_inv_iff
proof (intro allI impI)
  let ?c = "colsets w cp" and ?c' = "colsets (fst (ecs_table_grow al w t cp n e)) cp"
  fix i assume i: "0 < i \<and> i < length ?c' \<and> csize (?c' ! i) \<noteq> 0"
  note g = grow_ok_nth [OF wf ok, where n = n and e = e]
  have il: "i < length ?c" using i g(1) by simp
  have eq: "?c' ! i = (?c ! i)\<lparr>cdata := cdata (?c ! i) @ replicate n Uninit\<rparr>"
    using g(3) [of i] i il by simp
  then have nz: "csize (?c ! i) \<noteq> 0" using i by simp
  have "length (cdata (?c' ! i)) = length (cdata (?c ! i)) + n"
    unfolding eq by simp
  moreover have "length (cdata (?c ! i)) = length (cdata (?c ! 0))"
    using inv i il nz unfolding cols_inv_iff by blast
  moreover have "length (cdata (?c' ! 0)) = length (cdata (?c ! 0)) + n"
    unfolding g(2) by simp
  ultimately show "length (cdata (?c' ! i)) = length (cdata (?c' ! 0))" by simp
qed

lemma rows_dropped_inv:
  assumes rd: "rows_dropped cols cols'" and inv: "cols_inv cols"
  shows "cols_inv cols'"
  unfolding cols_inv_iff
proof (intro allI impI)
  fix i assume i: "0 < i \<and> i < length cols' \<and> csize (cols' ! i) \<noteq> 0"
  have il: "i < length cols" "0 < length cols" using i rd unfolding rows_dropped_def by auto
  have nz: "csize (cols ! i) \<noteq> 0" using rd il i unfolding rows_dropped_def by metis
  have "length (cdata (cols' ! i)) = length (cdata (cols ! i)) - 1"
    using rd il(1) nz unfolding rows_dropped_def by metis
  moreover have "length (cdata (cols' ! 0)) = length (cdata (cols ! 0)) - 1"
    using rd il(2) unfolding rows_dropped_def by metis
  moreover have "length (cdata (cols ! i)) = length (cdata (cols ! 0))"
    using inv i il nz unfolding cols_inv_iff by blast
  ultimately show "length (cdata (cols' ! i)) = length (cdata (cols' ! 0))" by simp
qed

lemma rows_dropped_tags:
  assumes rd: "rows_dropped cols cols'" and te: "tags_empty cols"
  shows "tags_empty cols'"
  unfolding tags_empty_iff
proof (intro allI impI)
  fix i assume i: "0 < i \<and> i < length cols' \<and> csize (cols' ! i) = 0"
  have il: "i < length cols" using i rd unfolding rows_dropped_def by auto
  have z: "csize (cols ! i) = 0" using rd il i unfolding rows_dropped_def by metis
  have "\<not> (i = 0 \<or> csize (cols ! i) \<noteq> 0)" using z i by simp
  then have "cols' ! i = cols ! i"
    using rd il unfolding rows_dropped_def by metis
  moreover have "cdata (cols ! i) = []"
    using te i il z unfolding tags_empty_iff by blast
  ultimately show "cdata (cols' ! i) = []" by simp
qed

lemma shape_move:
  assumes wf: "length cols = m + 1"
  shows "rows_dropped cols
           ((delete_move_columns [1 ..< m + 1] i
               (cols[0 := (cols ! 0)\<lparr>cdata := (cdata (cols ! 0))[i := x]\<rparr>]))
            [0 := (delete_move_columns [1 ..< m + 1] i
                     (cols[0 := (cols ! 0)\<lparr>cdata := (cdata (cols ! 0))[i := x]\<rparr>]) ! 0)
                  \<lparr>cdata := ecs_vector_remove_last
                     (cdata (delete_move_columns [1 ..< m + 1] i
                        (cols[0 := (cols ! 0)\<lparr>cdata := (cdata (cols ! 0))[i := x]\<rparr>]) ! 0))\<rparr>])"
proof -
  let ?c1 = "cols[0 := (cols ! 0)\<lparr>cdata := (cdata (cols ! 0))[i := x]\<rparr>]"
  let ?c2 = "delete_move_columns [1 ..< m + 1] i ?c1"
  have l: "0 < length cols" using wf by simp
  have rng: "\<forall>j\<in>set [1 ..< m + 1]. j < length ?c1" using wf by (simp del: upt_Suc)
  have c2: "?c2 = map (\<lambda>j. if j \<in> set [1 ..< m + 1] \<and> csize (?c1 ! j) \<noteq> 0
                              then delete_col i (?c1 ! j) else ?c1 ! j) [0 ..< length ?c1]"
    using rng by (intro delete_move_columns_eq) simp_all
  have c20: "?c2 ! 0 = ?c1 ! 0" unfolding c2 using l by (simp del: upt_Suc)
  have c2j: "\<And>j. 0 < j \<Longrightarrow> j < length cols \<Longrightarrow>
               ?c2 ! j = (if csize (cols ! j) \<noteq> 0 then delete_col i (cols ! j) else cols ! j)"
    unfolding c2 using wf by (simp del: upt_Suc)
  have len2: "length ?c2 = length cols" unfolding c2 by simp
  show ?thesis
    unfolding rows_dropped_def
  proof (intro conjI allI impI)
    show "length (?c2[0 := (?c2 ! 0)\<lparr>cdata := ecs_vector_remove_last (cdata (?c2 ! 0))\<rparr>]) = length cols"
      using len2 by simp
  next
    fix j assume j: "j < length cols"
    show "csize (?c2[0 := (?c2 ! 0)\<lparr>cdata := ecs_vector_remove_last (cdata (?c2 ! 0))\<rparr>] ! j) = csize (cols ! j)"
    proof (cases "j = 0")
      case True
      then show ?thesis using len2 l c20 by simp
    next
      case False
      then show ?thesis using len2 j c2j [of j] by (simp add: delete_col_def)
    qed
  next
    fix j assume j: "j < length cols"
    show "if j = 0 \<or> csize (cols ! j) \<noteq> 0
          then length (cdata (?c2[0 := (?c2 ! 0)\<lparr>cdata := ecs_vector_remove_last (cdata (?c2 ! 0))\<rparr>] ! j)) =
               length (cdata (cols ! j)) - 1
          else ?c2[0 := (?c2 ! 0)\<lparr>cdata := ecs_vector_remove_last (cdata (?c2 ! 0))\<rparr>] ! j = cols ! j"
    proof (cases "j = 0")
      case True
      then show ?thesis using len2 l c20 by (simp add: ecs_vector_remove_last_def)
    next
      case False
      then show ?thesis using len2 j c2j [of j] by (simp add: delete_col_def)
    qed
  qed
qed

lemma shape_last:
  assumes wf: "length cols = m + 1"
  shows "rows_dropped cols
           (delete_last_columns [1 ..< m + 1]
              (cols[0 := (cols ! 0)\<lparr>cdata := ecs_vector_remove_last (cdata (cols ! 0))\<rparr>]))"
proof -
  let ?c1 = "cols[0 := (cols ! 0)\<lparr>cdata := ecs_vector_remove_last (cdata (cols ! 0))\<rparr>]"
  let ?c2 = "delete_last_columns [1 ..< m + 1] ?c1"
  have l: "0 < length cols" using wf by simp
  have rng: "\<forall>j\<in>set [1 ..< m + 1]. j < length ?c1" using wf by (simp del: upt_Suc)
  have c2: "?c2 = map (\<lambda>j. if j \<in> set [1 ..< m + 1] \<and> csize (?c1 ! j) \<noteq> 0
                              then (?c1 ! j)\<lparr>cdata := butlast (cdata (?c1 ! j))\<rparr> else ?c1 ! j)
                      [0 ..< length ?c1]"
    using rng by (intro delete_last_columns_eq) simp_all
  have c20: "?c2 ! 0 = ?c1 ! 0" unfolding c2 using l by (simp del: upt_Suc)
  have c2j: "\<And>j. 0 < j \<Longrightarrow> j < length cols \<Longrightarrow>
               ?c2 ! j = (if csize (cols ! j) \<noteq> 0
                          then (cols ! j)\<lparr>cdata := butlast (cdata (cols ! j))\<rparr> else cols ! j)"
    unfolding c2 using wf by (simp del: upt_Suc)
  have len2: "length ?c2 = length cols" unfolding c2 by simp
  show ?thesis
    unfolding rows_dropped_def
  proof (intro conjI allI impI)
    show "length ?c2 = length cols" by (rule len2)
  next
    fix j assume j: "j < length cols"
    show "csize (?c2 ! j) = csize (cols ! j)"
    proof (cases "j = 0")
      case True
      then show ?thesis using l c20 by simp
    next
      case False
      then show ?thesis using j c2j [of j] by simp
    qed
  next
    fix j assume j: "j < length cols"
    show "if j = 0 \<or> csize (cols ! j) \<noteq> 0
          then length (cdata (?c2 ! j)) = length (cdata (cols ! j)) - 1
          else ?c2 ! j = cols ! j"
    proof (cases "j = 0")
      case True
      then show ?thesis using l c20 by (simp add: ecs_vector_remove_last_def)
    next
      case False
      then show ?thesis using j c2j [of j] by simp
    qed
  qed
qed

lemma delete_shape:
  assumes wf: "length (colsets w (columns t)) = length (ttype t) + 1"
    and run: "ecs_table_delete w t index = Inr w'"
  shows "rows_dropped (colsets w (columns t)) (colsets w' (columns t))"
  using run shape_move [OF wf] shape_last [OF wf]
  unfolding ecs_table_delete_def Let_def
  by (auto simp: activate_table_all simp del: upt_Suc split: if_splits)

text \<open>
  Claim C3, as amended. For a table whose column array has one column per type element
  plus column 0 and whose data columns of non-zero element size are as long as column 0:
  the same equality of lengths holds after every \<open>ecs_table_insert\<close> and every
  \<open>ecs_table_grow\<close> in which no allocation fails, and after every \<open>ecs_table_delete\<close>
  that passes its assertions. Insert and delete keep the zero-size (tag) columns without
  data. A call that returns the out-of-memory sentinel after it has grown column 0 is not
  covered: it leaves column 0 longer than the data columns not yet grown.
\<close>

theorem storage_invariant_preserved:
  assumes "length (colsets w cp) = length (ttype t) + 1"
    and "cols_inv (colsets w cp)"
  shows "(\<not> insert_oom al t (colsets w cp) \<longrightarrow>
            cols_inv (colsets (fst (ecs_table_insert al w t cp e)) cp) \<and>
            (tags_empty (colsets w cp) \<longrightarrow>
               tags_empty (colsets (fst (ecs_table_insert al w t cp e)) cp))) \<and>
         (\<not> grow_oom al t \<longrightarrow>
            cols_inv (colsets (fst (ecs_table_grow al w t cp n e)) cp)) \<and>
         (cp = columns t \<longrightarrow>
            (\<forall>w'. ecs_table_delete w t index = Inr w' \<longrightarrow>
               cols_inv (colsets w' cp) \<and>
               (tags_empty (colsets w cp) \<longrightarrow> tags_empty (colsets w' cp))))"
proof -
  have i: "\<not> insert_oom al t (colsets w cp) \<longrightarrow>
            cols_inv (colsets (fst (ecs_table_insert al w t cp e)) cp) \<and>
            (tags_empty (colsets w cp) \<longrightarrow>
               tags_empty (colsets (fst (ecs_table_insert al w t cp e)) cp))"
    using insert_preserves_inv [OF assms(1) _ assms(2)] insert_preserves_tags [OF assms(1)]
    by blast
  have g: "\<not> grow_oom al t \<longrightarrow>
            cols_inv (colsets (fst (ecs_table_grow al w t cp n e)) cp)"
    using grow_preserves_inv [OF assms(1) _ assms(2)] by blast
  have d: "cp = columns t \<longrightarrow>
            (\<forall>w'. ecs_table_delete w t index = Inr w' \<longrightarrow>
               cols_inv (colsets w' cp) \<and>
               (tags_empty (colsets w cp) \<longrightarrow> tags_empty (colsets w' cp)))"
  proof (intro impI allI)
    fix w' assume cp: "cp = columns t" and run: "ecs_table_delete w t index = Inr w'"
    have rd: "rows_dropped (colsets w cp) (colsets w' cp)"
      using delete_shape [OF _ run] assms(1) unfolding cp by blast
    show "cols_inv (colsets w' cp) \<and>
          (tags_empty (colsets w cp) \<longrightarrow> tags_empty (colsets w' cp))"
      using rows_dropped_inv [OF rd assms(2)] rows_dropped_tags [OF rd] by blast
  qed
  show ?thesis using i g d by blast
qed

theorem storage_invariant_preserved_witness:
  "cols_inv (colsets w_two 0) \<and>
   cols_inv (colsets (fst (ecs_table_insert al_moved w_two t_ab 0 3)) 0) \<and>
   tags_empty (colsets (fst (ecs_table_insert al_moved w_two t_ab 0 3)) 0) \<and>
   cols_inv (colsets (fst (ecs_table_grow al_moved w_two t_ab 0 5 3)) 0) \<and>
   cols_inv (colsets (projr (ecs_table_delete w_two t_ab 1)) 0) \<and>
   tags_empty (colsets (projr (ecs_table_delete w_two t_ab 1)) 0)"
proof -
  have h1: "length (colsets w_two 0) = length (ttype t_ab) + 1"
    by (simp add: w_two_def t_ab_def)
  have h2: "cols_inv (colsets w_two 0)"
    by (simp add: w_two_def cols_inv_def)
  have te: "tags_empty (colsets w_two 0)"
    by (simp add: w_two_def tags_empty_def)
  have i: "\<not> insert_oom al_moved t_ab (colsets w_two 0)"
    by (simp add: insert_oom_def al_moved_def)
  have g: "\<not> grow_oom al_moved t_ab"
    by (simp add: grow_oom_def al_moved_def)
  have cp: "0 = columns t_ab"
    by (simp add: t_ab_def)
  have d: "ecs_table_delete w_two t_ab 1 = Inr (projr (ecs_table_delete w_two t_ab 1))"
    by (simp add: ecs_table_delete_def w_two_def t_ab_def Let_def)
  show ?thesis
    using storage_invariant_preserved [OF h1 h2, where al = al_moved and e = 3 and n = 5
        and index = 1] h2 te i g cp d
    by blast
qed

theorem storage_invariant_counterexample:
  "cols_inv (colsets w_ab 0) \<and>
   snd (ecs_table_insert al_fail_after_0 w_ab t_ab 0 42) = - 1 \<and>
   length (cdata (colsets (fst (ecs_table_insert al_fail_after_0 w_ab t_ab 0 42)) 0 ! 0)) = 1 \<and>
   csize (colsets (fst (ecs_table_insert al_fail_after_0 w_ab t_ab 0 42)) 0 ! 1) = 4 \<and>
   length (cdata (colsets (fst (ecs_table_insert al_fail_after_0 w_ab t_ab 0 42)) 0 ! 1)) = 0 \<and>
   \<not> cols_inv (colsets (fst (ecs_table_insert al_fail_after_0 w_ab t_ab 0 42)) 0)"
  by (simp add: ecs_table_insert_def ecs_vector_add_def al_fail_after_0_def w_ab_def t_ab_def
      Let_def cols_inv_def)

subsection \<open>Type evaluation\<close>







text \<open>
  Claim C8, as amended. For a call of \<open>ecs_table_insert\<close> or \<open>ecs_table_grow\<close> in which no
  allocation fails, the world's \<open>should_resolve\<close> flag afterwards is set exactly if it
  was set before, or the columns written are the table's primary columns and a data column
  (index 1 and up; for insert, of non-zero element size) was seen to move. A move of
  column 0 alone, or a move in a shadow column set of a stage, does not raise the flag.
\<close>

theorem should_resolve_after_growth:
  assumes "length (colsets w cp) = length (ttype t) + 1"
  shows "(\<not> insert_oom al t (colsets w cp) \<longrightarrow>
            should_resolve (fst (ecs_table_insert al w t cp e)) =
              (should_resolve w \<or>
               (columns t = cp \<and>
                (\<exists>i\<in>set [1 ..< length (ttype t) + 1].
                   csize (colsets w cp ! i) \<noteq> 0 \<and> al i = Moved)))) \<and>
         (\<not> grow_oom al t \<longrightarrow>
            should_resolve (fst (ecs_table_grow al w t cp n e)) =
              (should_resolve w \<or>
               (columns t = cp \<and> (\<exists>i\<in>set [1 ..< length (ttype t) + 1]. al i = Moved))))"
  using insert_ok_flag [OF assms] grow_ok_flag [OF assms] by blast

theorem should_resolve_after_growth_witness:
  "should_resolve (fst (ecs_table_insert al_moved w_ab t_ab 0 42)) \<and>
   should_resolve (fst (ecs_table_grow al_moved w_ab t_ab 0 3 42))"
proof -
  have h: "length (colsets w_ab 0) = length (ttype t_ab) + 1"
    by (simp add: w_ab_def t_ab_def)
  have i: "\<not> insert_oom al_moved t_ab (colsets w_ab 0)"
    by (simp add: insert_oom_def al_moved_def)
  have g: "\<not> grow_oom al_moved t_ab"
    by (simp add: grow_oom_def al_moved_def)
  have m: "columns t_ab = 0 \<and>
           (\<exists>i\<in>set [1 ..< length (ttype t_ab) + 1]. csize (colsets w_ab 0 ! i) \<noteq> 0 \<and> al_moved i = Moved)"
    by (simp add: t_ab_def w_ab_def al_moved_def)
  then have m': "columns t_ab = 0 \<and> (\<exists>i\<in>set [1 ..< length (ttype t_ab) + 1]. al_moved i = Moved)"
    by blast
  show ?thesis
    using should_resolve_after_growth [OF h, where al = al_moved and e = 42 and n = 3] i g m m' by blast
qed

theorem should_resolve_counterexample:
  "al_moved 0 = Moved \<and>
   snd (ecs_table_insert al_moved w_tag t_tag 0 42) = 1 \<and>
   \<not> should_resolve (fst (ecs_table_insert al_moved w_tag t_tag 0 42)) \<and>
   al_moved 1 = Moved \<and>
   snd (ecs_table_insert al_moved w_stage t_ab 1 42) = 1 \<and>
   \<not> should_resolve (fst (ecs_table_insert al_moved w_stage t_ab 1 42))"
  by (simp add: ecs_table_insert_def ecs_vector_add_def al_moved_def w_tag_def t_tag_def
      w_stage_def t_ab_def Let_def notify_systems_of_realloc_def activate_table_def)




section \<open>Properties of the query matcher\<close>

subsection \<open>Creating a query and offering tables\<close>

lemma match_tables_offer:
  "match_tables st ts s = offer_tables st ts s"
proof (induction ts arbitrary: s)
  case Nil
  show ?case by simp
next
  case (Cons t ts)
  show ?case
  proof (cases "match_table st t (snd s)")
    case (Inl err)
    then show ?thesis by (simp add: ecs_query_match_table_def)
  next
    case (Inr ok)
    show ?thesis
    proof (cases ok)
      case False
      then show ?thesis using Inr Cons.IH by (simp add: ecs_query_match_table_def)
    next
      case True
      then show ?thesis using Inr Cons.IH
        by (cases "add_table st s t") (simp_all add: ecs_query_match_table_def)
    qed
  qed
qed

lemma new_query_offer_same_store:
  "ecs_new_query st ts watched fresh sg = new_query_then_offer st ts watched fresh sg"
proof -
  obtain w0 q0 where p: "postprocess st (watched, fresh\<lparr>sig := sg\<rparr>) = (w0, q0)"
    by (cases "postprocess st (watched, fresh\<lparr>sig := sg\<rparr>)")
  show ?thesis
    unfolding new_query_then_offer_def ecs_new_query_def Let_def p match_tables_offer
    by (simp split: sum.splits prod.splits)
qed

subsection \<open>Shared aggregates\<close>



subsection \<open>Plan compilation\<close>

lemma components_contains_first:
  assumes "\<forall>p\<in>set (childof_parents st table_type). get_entity st p \<noteq> None"
  shows "components_contains st table_type alts False =
           (case filter (\<lambda>p. parent_alternative st alts p \<noteq> 0) (childof_parents st table_type) of
              [] \<Rightarrow> Inr (0, 0)
            | p # rest \<Rightarrow> Inr (parent_alternative st alts p, p))"
  using assms
proof (induction table_type)
  case Nil
  show ?case by (simp add: childof_parents_def)
next
  case (Cons e es)
  have rest: "\<forall>p\<in>set (childof_parents st es). get_entity st p \<noteq> None"
    using Cons.prems by (auto simp: childof_parents_def)
  note ih = Cons.IH [OF rest]
  show ?case
  proof (cases "e AND ECS_CHILDOF st \<noteq> 0")
    case False
    then show ?thesis using ih by (simp add: childof_parents_def)
  next
    case True
    let ?p = "e AND ECS_ENTITY_MASK st"
    have cp: "childof_parents st (e # es) = ?p # childof_parents st es"
      using True by (simp add: childof_parents_def)
    have "get_entity st ?p \<noteq> None" using Cons.prems cp by simp
    then obtain row where row: "get_entity st ?p = Some row" by auto
    show ?thesis
    proof (cases row)
      case None
      then have "parent_alternative st alts ?p = 0" using row by (simp add: parent_alternative_def)
      then show ?thesis using True row None ih cp by simp
    next
      case (Some ty)
      then have pa: "parent_alternative st alts ?p = ecs_type_contains st ty alts False True"
        using row by (simp add: parent_alternative_def)
      show ?thesis
      proof (cases "ecs_type_contains st ty alts False True = 0")
        case z: True
        then show ?thesis using True row Some ih cp pa by simp
      next
        case nz: False
        then show ?thesis using True row Some cp pa by simp
      qed
    qed
  qed
qed

lemma contains_component_root:
  "\<forall>e\<in>set table_type. e AND flgs = 0 \<Longrightarrow>
     ecs_components_contains_component st table_type component flgs = None"
  by (induction table_type) simp_all

lemma add_table_column_reference:
  assumes src: "column_source st sys (ttype t) column = Inr (entity, component, z)"
    and op: "sc_op column \<noteq> EcsOperNot \<or> sc_from column = EcsFromEmpty"
    and taken: "entity \<noteq> 0 \<or> sc_from column = EcsCascade"
    and direct: "sc_from column = EcsFromEntity \<or> sc_from column = EcsCascade"
    and sz: "component_size st component = Some sz" "sz \<noteq> 0"
  shows "add_table_column st sys t c column (td, hr, watched) =
           Inr (td\<lparr>mt_columns := (mt_columns td)[c := - int (length (mt_references td) + 1)],
                   mt_components := (mt_components td)[c := component],
                   mt_references := mt_references td @
                     [\<lparr>ref_entity = entity, ref_component = component,
                       cached_ptr = (if entity \<noteq> 0 then get_ptr_intern st entity component
                                     else None)\<rparr>]\<rparr>,
                True, if entity \<noteq> 0 then watched @ [entity] else watched)"
proof -
  have r: "\<And>slot. column_reference st (ttype t) (sc_from column) entity component slot
             (mt_references td, hr, watched) =
           Inr (- int (length (mt_references td) + 1),
                mt_references td @
                  [\<lparr>ref_entity = entity, ref_component = component,
                    cached_ptr = (if entity \<noteq> 0 then get_ptr_intern st entity component
                                  else None)\<rparr>],
                True, if entity \<noteq> 0 then watched @ [entity] else watched)"
    using taken direct sz
    by (auto simp: column_reference_def ECS_INVALID_ENTITY_def Let_def)
  show ?thesis
    using op unfolding add_table_column_def by (simp add: src r Let_def)
qed

lemmas query_eval_defs =
  ecs_new_query_def postprocess_def postprocess_column_def st_ex_def q_fresh_def
  sig_of_def sig_column_def sig_column_or_def table_of_def match_table_def
  ecs_type_contains_def type_holds_def INSTANCEOF_bit_def CHILDOF_bit_def add_table_def
  add_table_column_def column_source_def column_slot_def column_reference_def match_column_def
  ecs_get_entity_for_component_def ECS_INVALID_ENTITY_def plans_of_def plan_of_def Let_def

lemma column_reference_extends:
  assumes "column_reference st table_type frm entity component slot (refs, hr, watched) =
             Inr (slot3, refs', hr', watched')"
  shows "\<exists>more. refs' = refs @ more"
proof (cases "entity \<noteq> 0 \<or> slot = - 1 \<or> frm = EcsCascade")
  case False
  then show ?thesis using assms by (simp add: column_reference_def)
next
  case True
  show ?thesis
  proof (cases "component_size st component")
    case None
    then show ?thesis using assms True by (simp add: column_reference_def)
  next
    case (Some sz)
    show ?thesis
    proof (cases "sz = 0")
      case z: True
      then show ?thesis using assms True Some by (simp add: column_reference_def)
    next
      case nz: False
      then show ?thesis using assms True Some
        by (auto simp: column_reference_def Let_def split: sum.splits if_splits)
    qed
  qed
qed

lemma add_table_column_cases:
  assumes "add_table_column st sys t c column (td, hr, watched) = Inr s2"
  shows "\<exists>entity component slot slot3 refs hr' watched'.
           s2 = (td\<lparr>mt_columns := (mt_columns td)[c := slot3],
                     mt_components := (mt_components td)[c := component],
                     mt_references := refs\<rparr>, hr', watched') \<and>
           column_reference st (ttype t) (sc_from column) entity component slot
             (mt_references td, hr, watched) = Inr (slot3, refs, hr', watched')"
proof -
  have ok: "sc_op column \<noteq> EcsOperNot \<or> sc_from column = EcsFromEmpty"
    using assms unfolding add_table_column_def by (auto split: if_splits)
  obtain entity component z where src:
    "column_source st sys (ttype t) column = Inr (entity, component, z)"
    using assms ok unfolding add_table_column_def
    by (cases "column_source st sys (ttype t) column") auto
  let ?slot = "column_slot st t (sc_from column) (sc_op column) entity component
                 (if z then 0 else mt_columns td ! c)"
  obtain slot3 refs hr' watched' where cr:
    "column_reference st (ttype t) (sc_from column) entity component ?slot
       (mt_references td, hr, watched) = Inr (slot3, refs, hr', watched')"
    using assms ok src unfolding add_table_column_def
    by (cases "column_reference st (ttype t) (sc_from column) entity component ?slot
                 (mt_references td, hr, watched)") (auto simp: Let_def)
  have "s2 = (td\<lparr>mt_columns := (mt_columns td)[c := slot3],
                     mt_components := (mt_components td)[c := component],
                     mt_references := refs\<rparr>, hr', watched')"
    using assms ok src cr unfolding add_table_column_def
    by (auto simp: Let_def split: if_splits)
  then show ?thesis using cr by blast
qed

lemma add_table_column_frame:
  assumes "add_table_column st sys t c column s = Inr s2"
  shows "length (mt_columns (fst s2)) = length (mt_columns (fst s))"
    and "length (mt_components (fst s2)) = length (mt_components (fst s))"
    and "i \<noteq> c \<Longrightarrow> mt_columns (fst s2) ! i = mt_columns (fst s) ! i"
    and "i \<noteq> c \<Longrightarrow> mt_components (fst s2) ! i = mt_components (fst s) ! i"
    and "\<exists>more. mt_references (fst s2) = mt_references (fst s) @ more"
proof -
  obtain td hr watched where s: "s = (td, hr, watched)" by (cases s)
  obtain entity component slot slot3 refs hr' watched' where
    s2: "s2 = (td\<lparr>mt_columns := (mt_columns td)[c := slot3],
                   mt_components := (mt_components td)[c := component],
                   mt_references := refs\<rparr>, hr', watched')"
    and cr: "column_reference st (ttype t) (sc_from column) entity component slot
               (mt_references td, hr, watched) = Inr (slot3, refs, hr', watched')"
    using add_table_column_cases [OF assms [unfolded s]] by blast
  show "length (mt_columns (fst s2)) = length (mt_columns (fst s))"
    and "length (mt_components (fst s2)) = length (mt_components (fst s))"
    and "i \<noteq> c \<Longrightarrow> mt_columns (fst s2) ! i = mt_columns (fst s) ! i"
    and "i \<noteq> c \<Longrightarrow> mt_components (fst s2) ! i = mt_components (fst s) ! i"
    unfolding s s2 by simp_all
  show "\<exists>more. mt_references (fst s2) = mt_references (fst s) @ more"
    unfolding s s2 using column_reference_extends [OF cr] by simp
qed

lemma add_table_loop_frame:
  assumes "add_table_loop st sys t c cols s = Inr s'"
  shows "length (mt_columns (fst s')) = length (mt_columns (fst s)) \<and>
         length (mt_components (fst s')) = length (mt_components (fst s)) \<and>
         (\<forall>i<c. mt_columns (fst s') ! i = mt_columns (fst s) ! i \<and>
                mt_components (fst s') ! i = mt_components (fst s) ! i) \<and>
         (\<exists>more. mt_references (fst s') = mt_references (fst s) @ more)"
  using assms
proof (induction cols arbitrary: c s)
  case Nil
  then show ?case by simp
next
  case (Cons column rest)
  obtain s2 where step: "add_table_column st sys t c column s = Inr s2"
    and loop: "add_table_loop st sys t (c + 1) rest s2 = Inr s'"
    using Cons.prems by (auto split: sum.splits)
  note f = add_table_column_frame [OF step]
  note ih = Cons.IH [OF loop]
  have a: "length (mt_columns (fst s')) = length (mt_columns (fst s))"
    using ih f(1) by simp
  have b: "length (mt_components (fst s')) = length (mt_components (fst s))"
    using ih f(2) by simp
  have c: "\<forall>i<c. mt_columns (fst s') ! i = mt_columns (fst s) ! i \<and>
                mt_components (fst s') ! i = mt_components (fst s) ! i"
  proof (intro allI impI)
    fix i assume i: "i < c"
    then have "i < c + 1" "i \<noteq> c" by simp_all
    then show "mt_columns (fst s') ! i = mt_columns (fst s) ! i \<and>
                mt_components (fst s') ! i = mt_components (fst s) ! i"
      using ih f(3) [of i] f(4) [of i] by simp
  qed
  obtain m1 where m1: "mt_references (fst s2) = mt_references (fst s) @ m1" using f(5) by blast
  obtain m2 where m2: "mt_references (fst s') = mt_references (fst s2) @ m2" using ih by blast
  have d: "\<exists>more. mt_references (fst s') = mt_references (fst s) @ more"
    using m1 m2 by simp
  show ?case using a b c d by blast
qed

lemma add_table_loop_steps:
  assumes "add_table_loop st sys t c cols s = Inr s'" and "k < length cols"
  shows "\<exists>s1 s2 more. add_table_column st sys t (c + k) (cols ! k) s1 = Inr s2 \<and>
           length (mt_columns (fst s1)) = length (mt_columns (fst s)) \<and>
           length (mt_components (fst s1)) = length (mt_components (fst s)) \<and>
           mt_columns (fst s') ! (c + k) = mt_columns (fst s2) ! (c + k) \<and>
           mt_components (fst s') ! (c + k) = mt_components (fst s2) ! (c + k) \<and>
           mt_references (fst s') = mt_references (fst s2) @ more"
  using assms
proof (induction cols arbitrary: c s k)
  case Nil
  then show ?case by simp
next
  case (Cons column rest)
  obtain s2 where step: "add_table_column st sys t c column s = Inr s2"
    and loop: "add_table_loop st sys t (c + 1) rest s2 = Inr s'"
    using Cons.prems(1) by (auto split: sum.splits)
  show ?case
  proof (cases k)
    case 0
    note fr = add_table_loop_frame [OF loop]
    have ck: "c + k = c" using 0 by simp
    have x: "add_table_column st sys t (c + k) ((column # rest) ! k) s = Inr s2"
      using step 0 by simp
    have y: "mt_columns (fst s') ! (c + k) = mt_columns (fst s2) ! (c + k)"
      and z: "mt_components (fst s') ! (c + k) = mt_components (fst s2) ! (c + k)"
      unfolding ck using fr by simp_all
    obtain more where m: "mt_references (fst s') = mt_references (fst s2) @ more"
      using fr by blast
    have "length (mt_columns (fst s)) = length (mt_columns (fst s))"
      and "length (mt_components (fst s)) = length (mt_components (fst s))" by simp_all
    then show ?thesis using x y z m by blast
  next
    case (Suc k')
    then have k': "k' < length rest" using Cons.prems(2) by simp
    obtain s1 s3 more where
      a: "add_table_column st sys t (c + 1 + k') (rest ! k') s1 = Inr s3"
      and b: "length (mt_columns (fst s1)) = length (mt_columns (fst s2))"
      and b2: "length (mt_components (fst s1)) = length (mt_components (fst s2))"
      and c: "mt_columns (fst s') ! (c + 1 + k') = mt_columns (fst s3) ! (c + 1 + k')"
      and d: "mt_components (fst s') ! (c + 1 + k') = mt_components (fst s3) ! (c + 1 + k')"
      and e: "mt_references (fst s') = mt_references (fst s3) @ more"
      using Cons.IH [OF loop k'] by blast
    have ck: "c + 1 + k' = c + k" using Suc by simp
    have x: "add_table_column st sys t (c + k) ((column # rest) ! k) s1 = Inr s3"
      using a Suc unfolding ck by simp
    have l: "length (mt_columns (fst s1)) = length (mt_columns (fst s))"
      using b add_table_column_frame(1) [OF step] by simp
    have l2: "length (mt_components (fst s1)) = length (mt_components (fst s))"
      using b2 add_table_column_frame(2) [OF step] by simp
    show ?thesis using x l l2 c d e unfolding ck by blast
  qed
qed

lemma add_table_steps:
  assumes "add_table st (watched, q) t = Inr (watched', q')"
    and "k < length (sig_columns (sig q))"
  shows "\<exists>td s1 s2 more. tables q' = tables q @ [td] \<and>
           add_table_column st (system q) t k (sig_columns (sig q) ! k) s1 = Inr s2 \<and>
           k < length (mt_columns (fst s1)) \<and>
           k < length (mt_components (fst s1)) \<and>
           mt_columns td ! k = mt_columns (fst s2) ! k \<and>
           mt_components td ! k = mt_components (fst s2) ! k \<and>
           mt_references td = mt_references (fst s2) @ more"
proof -
  let ?td0 = "\<lparr>mt_table = t,
               mt_columns = map (malloc_columns st (length (tables q)))
                              [0 ..< length (sig_columns (sig q))],
               mt_components = map (malloc_components st (length (tables q)))
                                 [0 ..< length (sig_columns (sig q))],
               mt_references = []\<rparr>"
  obtain td hr where loop: "add_table_loop st (system q) t 0 (sig_columns (sig q))
                               (?td0, has_refs (sig q), watched) = Inr (td, hr, watched')"
    and q': "q' = q\<lparr>tables := tables q @ [td], sig := (sig q)\<lparr>has_refs := hr\<rparr>\<rparr>"
    using assms(1) unfolding add_table_def Let_def
    by (auto split: sum.splits prod.splits)
  obtain s1 s2 more where
    a: "add_table_column st (system q) t (0 + k) (sig_columns (sig q) ! k) s1 = Inr s2"
    and b: "length (mt_columns (fst s1)) =
              length (mt_columns (fst (?td0, has_refs (sig q), watched)))"
    and b2: "length (mt_components (fst s1)) =
              length (mt_components (fst (?td0, has_refs (sig q), watched)))"
    and c: "mt_columns (fst (td, hr, watched')) ! (0 + k) = mt_columns (fst s2) ! (0 + k)"
    and d: "mt_components (fst (td, hr, watched')) ! (0 + k) = mt_components (fst s2) ! (0 + k)"
    and e: "mt_references (fst (td, hr, watched')) = mt_references (fst s2) @ more"
    using add_table_loop_steps [OF loop assms(2)] by blast
  have l: "k < length (mt_columns (fst s1))" using b assms(2) by simp
  have l2: "k < length (mt_components (fst s1))" using b2 assms(2) by simp
  have t: "tables q' = tables q @ [td]" unfolding q' by simp
  have a': "add_table_column st (system q) t k (sig_columns (sig q) ! k) s1 = Inr s2"
    using a by simp
  have c': "mt_columns td ! k = mt_columns (fst s2) ! k"
    and d': "mt_components td ! k = mt_components (fst s2) ! k"
    and e': "mt_references td = mt_references (fst s2) @ more"
    using c d e by simp_all
  show ?thesis using t a' l l2 c' d' e' by blast
qed

lemma add_table_reference_slot:
  assumes run: "add_table st (watched, q) t = Inr (watched', q')"
    and k: "k < length (sig_columns (sig q))"
    and step: "\<And>td hr w.
        add_table_column st (system q) t k (sig_columns (sig q) ! k) (td, hr, w) =
          Inr (td\<lparr>mt_columns := (mt_columns td)[k := - int (length (mt_references td) + 1)],
                  mt_components := (mt_components td)[k := component],
                  mt_references := mt_references td @ [r]\<rparr>, True, W w)"
  shows "\<exists>td j. tables q' = tables q @ [td] \<and> mt_components td ! k = component \<and>
           0 < j \<and> j \<le> length (mt_references td) \<and> mt_columns td ! k = - int j \<and>
           mt_references td ! (j - 1) = r"
proof -
  obtain td s1 s2 more where t: "tables q' = tables q @ [td]"
    and a: "add_table_column st (system q) t k (sig_columns (sig q) ! k) s1 = Inr s2"
    and l: "k < length (mt_columns (fst s1))"
    and l2: "k < length (mt_components (fst s1))"
    and c: "mt_columns td ! k = mt_columns (fst s2) ! k"
    and d: "mt_components td ! k = mt_components (fst s2) ! k"
    and e: "mt_references td = mt_references (fst s2) @ more"
    using add_table_steps [OF run k] by blast
  obtain td1 hr1 w1 where s1: "s1 = (td1, hr1, w1)" by (cases s1)
  have s2: "s2 = (td1\<lparr>mt_columns := (mt_columns td1)[k := - int (length (mt_references td1) + 1)],
                  mt_components := (mt_components td1)[k := component],
                  mt_references := mt_references td1 @ [r]\<rparr>, True, W w1)"
    using a step [of td1 hr1 w1] unfolding s1 by simp
  have lc: "k < length (mt_columns td1)" using l unfolding s1 by simp
  let ?j = "length (mt_references td1) + 1"
  have refs: "mt_references td = mt_references td1 @ [r] @ more"
    using e unfolding s2 by simp
  have "mt_columns td ! k = - int ?j"
    using c lc unfolding s2 by simp
  moreover have "mt_references td ! (?j - 1) = r"
    unfolding refs by simp
  moreover have "?j \<le> length (mt_references td)"
    unfolding refs by simp
  moreover have "mt_components td ! k = component"
    using d l2 unfolding s1 s2 by simp
  ultimately show ?thesis using t by (intro exI [of _ td] exI [of _ ?j]) simp
qed

lemma add_table_component_slot:
  assumes run: "add_table st (watched, q) t = Inr (watched', q')"
    and k: "k < length (sig_columns (sig q))"
    and step: "\<And>td hr w s2.
        add_table_column st (system q) t k (sig_columns (sig q) ! k) (td, hr, w) = Inr s2 \<Longrightarrow>
          mt_components (fst s2) = (mt_components td)[k := component]"
  shows "\<exists>td. tables q' = tables q @ [td] \<and> mt_components td ! k = component"
proof -
  obtain td s1 s2 more where t: "tables q' = tables q @ [td]"
    and a: "add_table_column st (system q) t k (sig_columns (sig q) ! k) s1 = Inr s2"
    and l2: "k < length (mt_components (fst s1))"
    and d: "mt_components td ! k = mt_components (fst s2) ! k"
    using add_table_steps [OF run k] by blast
  obtain td1 hr1 w1 where s1: "s1 = (td1, hr1, w1)" by (cases s1)
  have "mt_components (fst s2) = (mt_components td1)[k := component]"
    using a step [of td1 hr1 w1 s2] unfolding s1 by simp
  then have "mt_components td ! k = component"
    using d l2 unfolding s1 by simp
  then show ?thesis using t by blast
qed

lemma or_container_source:
  assumes "sc_from column = EcsFromContainer" and "sc_op column = EcsOperOr"
    and "\<forall>q\<in>set (childof_parents st (ttype t)). get_entity st q \<noteq> None"
    and "filter (\<lambda>q. parent_alternative st (sc_type column) q \<noteq> 0)
           (childof_parents st (ttype t)) = p # rest"
    and "get_entity st p = Some (Some pty)"
    and "component = ecs_type_contains st pty (sc_type column) False True"
  shows "column_source st sys (ttype t) column = Inr (p, component, False)"
proof -
  have pa: "parent_alternative st (sc_type column) p = component"
    using assms(5,6) by (simp add: parent_alternative_def)
  have cc: "components_contains st (ttype t) (sc_type column) False = Inr (component, p)"
    using components_contains_first [OF assms(3), of "sc_type column"] assms(4) pa by simp
  show ?thesis
    using assms(1,2) cc by (simp add: column_source_def Let_def)
qed

lemma or_container_component:
  assumes "sc_from column = EcsFromContainer" and "sc_op column = EcsOperOr"
    and "\<forall>q\<in>set (childof_parents st (ttype t)). get_entity st q \<noteq> None"
    and "filter (\<lambda>q. parent_alternative st (sc_type column) q \<noteq> 0)
           (childof_parents st (ttype t)) = p # rest"
    and "get_entity st p = Some (Some pty)"
    and "component = ecs_type_contains st pty (sc_type column) False True"
    and run: "add_table_column st sys t c column (td, hr, watched) = Inr s2"
  shows "mt_components (fst s2) = (mt_components td)[c := component]"
proof -
  have src: "column_source st sys (ttype t) column = Inr (p, component, False)"
    using assms(1-6) by (rule or_container_source)
  show ?thesis
    using run assms(2) unfolding add_table_column_def
    by (auto simp: src Let_def split: sum.splits)
qed

lemma or_container_column:
  assumes "sc_from column = EcsFromContainer" and "sc_op column = EcsOperOr"
    and "\<forall>q\<in>set (childof_parents st (ttype t)). get_entity st q \<noteq> None"
    and "filter (\<lambda>q. parent_alternative st (sc_type column) q \<noteq> 0)
           (childof_parents st (ttype t)) = p # rest"
    and "get_entity st p = Some (Some pty)"
    and "component = ecs_type_contains st pty (sc_type column) False True"
    and "p \<noteq> 0"
    and "component_size st component = Some sz" and "sz \<noteq> 0"
    and "holder = (if component \<in> set pty then p
                   else find_entity_in_prefabs st p pty component 0)"
    and "holder \<noteq> 0"
  shows "add_table_column st sys t c column (td, hr, watched) =
           Inr (td\<lparr>mt_columns := (mt_columns td)[c := - int (length (mt_references td) + 1)],
                   mt_components := (mt_components td)[c := component],
                   mt_references := mt_references td @
                     [\<lparr>ref_entity = holder, ref_component = component,
                       cached_ptr = get_ptr_intern st holder component\<rparr>]\<rparr>,
                True, watched @ [holder])"
proof -
  have src: "column_source st sys (ttype t) column = Inr (p, component, False)"
    using assms(1-6) by (rule or_container_source)
  have ge: "ecs_get_entity_for_component st p (ttype t) component = Inr holder"
    using assms(5,7,10) by (simp add: ecs_get_entity_for_component_def)
  have r: "\<And>slot. column_reference st (ttype t) EcsFromContainer p component slot
             (mt_references td, hr, watched) =
           Inr (- int (length (mt_references td) + 1),
                mt_references td @
                  [\<lparr>ref_entity = holder, ref_component = component,
                    cached_ptr = get_ptr_intern st holder component\<rparr>],
                True, watched @ [holder])"
    using assms(7,8,9,11) ge
    by (simp add: column_reference_def ECS_INVALID_ENTITY_def Let_def)
  show ?thesis
    unfolding add_table_column_def using assms(1,2) by (simp add: src r Let_def)
qed

text \<open>
  Claim C4. The code breaks the claim where a component that is a tag is reached by the
  reference branch. For the signature \<open>And Self 12\<close>, where 12 is a tag that the table
  inherits from its prefab, the plan slot is left at \<open>-1\<close> although the record has no
  reference. For the signature \<open>And Container 12\<close>, where the parent has the tag, the
  plan slot is never written and holds what the allocator left in it.
\<close>

theorem plan_slot_defect:
  "plans_of (ecs_new_query st_ex [table_of 7 [10, INSTANCEOF_bit + 200]] [] q_fresh
               (sig_of [sig_column EcsFromSelf EcsOperAnd 12])) =
     [(7, [- 1], [12], [])] \<and>
   plans_of (ecs_new_query st_ex [table_of 8 [10, CHILDOF_bit + 200]] [] q_fresh
               (sig_of [sig_column EcsFromContainer EcsOperAnd 12])) =
     [(8, [malloc_columns st_ex 0 0], [12], [])]"
  by (simp add: query_eval_defs)




text \<open>
  Claim C6. The code breaks the claim through the plan slots that \<open>add_table\<close> never
  writes. For the signature \<open>And Container 12\<close>, where 12 is a tag of the parent 200,
  and the table of type \<open>[10, CHILDOF | 200]\<close>, the plan slot holds what the allocator
  left in the block: 7777 in the run that creates the query when the table exists, 4242
  in the run that creates the query first and offers the table afterwards. The two runs
  match the same table and agree on its components and references, but not on its plan.
  For the signature \<open>And Self 10\<close> every slot is written and the two runs give the same
  plans.
\<close>

theorem query_new_then_offer_defect:
  "plans_of (ecs_new_query st_ex [table_of 8 [10, CHILDOF_bit + 200]] [] q_fresh
               (sig_of [sig_column EcsFromContainer EcsOperAnd 12])) =
     [(8, [7777], [12], [])] \<and>
   plans_of (new_query_then_offer st_ex2 [table_of 8 [10, CHILDOF_bit + 200]] [] q_fresh
               (sig_of [sig_column EcsFromContainer EcsOperAnd 12])) =
     [(8, [4242], [12], [])] \<and>
   plans_of (ecs_new_query st_ex t_s1 [] q_fresh sig_s1) =
     [(1, [1], [10], []), (2, [1], [10], [])] \<and>
   plans_of (new_query_then_offer st_ex2 t_s1 [] q_fresh sig_s1) =
     [(1, [1], [10], []), (2, [1], [10], [])]"
  by (simp add: query_eval_defs new_query_then_offer_def ecs_query_match_table_def st_ex2_def
      t_s1_def sig_s1_def)

text \<open>
  Claim C9, as amended. For a signature column whose source kind is \<open>Cascade\<close> and whose
  resolved component is a component of non-zero element size, the loop body of
  \<open>add_table\<close> appends a reference entry with the resolved entity and the component, and
  records the plan slot as the negative 1-based index of that entry; the matched table
  record that \<open>add_table\<close> leaves in the query has that slot and that entry. For an
  \<open>And\<close> or \<open>Optional\<close> column on a table whose type has no \<open>CHILDOF\<close> entry the
  resolved entity is 0, so the entry has entity 0 and a null cached pointer, and no entity
  is watched.
\<close>

theorem cascade_reference:
  assumes "sc_from column = EcsCascade" and "sc_op column \<noteq> EcsOperNot"
    and "column_source st sys (ttype t) column = Inr (entity, component, z)"
    and "component_size st component = Some sz" and "sz \<noteq> 0"
    and "r = \<lparr>ref_entity = entity, ref_component = component,
              cached_ptr = (if entity \<noteq> 0 then get_ptr_intern st entity component else None)\<rparr>"
  shows "add_table_column st sys t c column (td, hr, watched) =
           Inr (td\<lparr>mt_columns := (mt_columns td)[c := - int (length (mt_references td) + 1)],
                   mt_components := (mt_components td)[c := component],
                   mt_references := mt_references td @ [r]\<rparr>,
                True, if entity \<noteq> 0 then watched @ [entity] else watched) \<and>
         (\<forall>ws q ws' q' k.
            add_table st (ws, q) t = Inr (ws', q') \<and> system q = sys \<and>
            k < length (sig_columns (sig q)) \<and> sig_columns (sig q) ! k = column \<longrightarrow>
            (\<exists>m j. tables q' = tables q @ [m] \<and> mt_components m ! k = component \<and>
                   0 < j \<and> j \<le> length (mt_references m) \<and> mt_columns m ! k = - int j \<and>
                   mt_references m ! (j - 1) = r)) \<and>
         ((sc_op column = EcsOperAnd \<or> sc_op column = EcsOperOptional) \<and>
          (\<forall>e\<in>set (ttype t). e AND ECS_CHILDOF st = 0) \<longrightarrow>
            entity = 0 \<and> component = sc_component column)"
proof (intro conjI)
  have step: "\<And>c td hr w. add_table_column st sys t c column (td, hr, w) =
           Inr (td\<lparr>mt_columns := (mt_columns td)[c := - int (length (mt_references td) + 1)],
                   mt_components := (mt_components td)[c := component],
                   mt_references := mt_references td @ [r]\<rparr>,
                True, if entity \<noteq> 0 then w @ [entity] else w)"
    unfolding assms(6) using assms(1-5) by (intro add_table_column_reference) simp_all
  show "add_table_column st sys t c column (td, hr, watched) =
           Inr (td\<lparr>mt_columns := (mt_columns td)[c := - int (length (mt_references td) + 1)],
                   mt_components := (mt_components td)[c := component],
                   mt_references := mt_references td @ [r]\<rparr>,
                True, if entity \<noteq> 0 then watched @ [entity] else watched)"
    by (rule step)
  show "\<forall>ws q ws' q' k.
            add_table st (ws, q) t = Inr (ws', q') \<and> system q = sys \<and>
            k < length (sig_columns (sig q)) \<and> sig_columns (sig q) ! k = column \<longrightarrow>
            (\<exists>m j. tables q' = tables q @ [m] \<and> mt_components m ! k = component \<and>
                   0 < j \<and> j \<le> length (mt_references m) \<and> mt_columns m ! k = - int j \<and>
                   mt_references m ! (j - 1) = r)"
  proof (intro allI impI)
    fix ws q ws' q' k
    assume a: "add_table st (ws, q) t = Inr (ws', q') \<and> system q = sys \<and>
            k < length (sig_columns (sig q)) \<and> sig_columns (sig q) ! k = column"
    then have run: "add_table st (ws, q) t = Inr (ws', q')"
      and k: "k < length (sig_columns (sig q))" by simp_all
    have st': "\<And>td hr w.
        add_table_column st (system q) t k (sig_columns (sig q) ! k) (td, hr, w) =
          Inr (td\<lparr>mt_columns := (mt_columns td)[k := - int (length (mt_references td) + 1)],
                  mt_components := (mt_components td)[k := component],
                  mt_references := mt_references td @ [r]\<rparr>, True,
               (\<lambda>w. if entity \<noteq> 0 then w @ [entity] else w) w)"
      using a step by simp
    show "\<exists>m j. tables q' = tables q @ [m] \<and> mt_components m ! k = component \<and>
                   0 < j \<and> j \<le> length (mt_references m) \<and> mt_columns m ! k = - int j \<and>
                   mt_references m ! (j - 1) = r"
      using run k st' by (rule add_table_reference_slot)
  qed
  show "(sc_op column = EcsOperAnd \<or> sc_op column = EcsOperOptional) \<and>
          (\<forall>e\<in>set (ttype t). e AND ECS_CHILDOF st = 0) \<longrightarrow>
            entity = 0 \<and> component = sc_component column"
  proof
    assume a: "(sc_op column = EcsOperAnd \<or> sc_op column = EcsOperOptional) \<and>
          (\<forall>e\<in>set (ttype t). e AND ECS_CHILDOF st = 0)"
    then have "ecs_components_contains_component st (ttype t) (sc_component column)
                 (ECS_CHILDOF st) = None"
      by (intro contains_component_root) simp
    then have "column_source st sys (ttype t) column = Inr (0, sc_component column, False)"
      using a assms(1) by (auto simp: column_source_def Let_def)
    then show "entity = 0 \<and> component = sc_component column"
      using assms(3) by simp
  qed
qed

theorem cascade_reference_witness:
  "add_table_column st_ex 0 (table_of 1 [10]) 0 (sig_column EcsCascade EcsOperAnd 10)
     (\<lparr>mt_table = table_of 1 [10], mt_columns = [7777], mt_components = [0],
       mt_references = []\<rparr>, False, []) =
   Inr (\<lparr>mt_table = table_of 1 [10], mt_columns = [- 1], mt_components = [10],
         mt_references = [\<lparr>ref_entity = 0, ref_component = 10, cached_ptr = None\<rparr>]\<rparr>,
        True, []) \<and>
   plans_of (ecs_new_query st_ex [table_of 1 [10]] [] q_fresh
               (sig_of [sig_column EcsCascade EcsOperAnd 10])) =
     [(1, [- 1], [10], [\<lparr>ref_entity = 0, ref_component = 10, cached_ptr = None\<rparr>])]"
proof -
  have h1: "sc_from (sig_column EcsCascade EcsOperAnd 10) = EcsCascade"
    and h2: "sc_op (sig_column EcsCascade EcsOperAnd 10) \<noteq> EcsOperNot"
    by (simp_all add: sig_column_def)
  have h3: "column_source st_ex 0 (ttype (table_of 1 [10])) (sig_column EcsCascade EcsOperAnd 10) =
              Inr (0, 10, False)"
    by (simp add: column_source_def sig_column_def table_of_def st_ex_def CHILDOF_bit_def)
  have h4: "component_size st_ex 10 = Some 8" and h5: "(8 :: nat) \<noteq> 0"
    by (simp_all add: st_ex_def)
  have h6: "\<lparr>ref_entity = 0, ref_component = 10, cached_ptr = None\<rparr> =
              \<lparr>ref_entity = 0, ref_component = 10,
               cached_ptr = (if (0 :: ecs_entity_t) \<noteq> 0 then get_ptr_intern st_ex 0 10 else None)\<rparr>"
    by simp
  have a: "add_table_column st_ex 0 (table_of 1 [10]) 0 (sig_column EcsCascade EcsOperAnd 10)
     (\<lparr>mt_table = table_of 1 [10], mt_columns = [7777], mt_components = [0],
       mt_references = []\<rparr>, False, []) =
   Inr (\<lparr>mt_table = table_of 1 [10], mt_columns = [- 1], mt_components = [10],
         mt_references = [\<lparr>ref_entity = 0, ref_component = 10, cached_ptr = None\<rparr>]\<rparr>,
        True, [])"
    using cascade_reference [OF h1 h2 h3 h4 h5 h6, of 0
        "\<lparr>mt_table = table_of 1 [10], mt_columns = [7777], mt_components = [0],
          mt_references = []\<rparr>" False "[]"]
    by simp
  have b: "plans_of (ecs_new_query st_ex [table_of 1 [10]] [] q_fresh
               (sig_of [sig_column EcsCascade EcsOperAnd 10])) =
     [(1, [- 1], [10], [\<lparr>ref_entity = 0, ref_component = 10, cached_ptr = None\<rparr>])]"
    by (simp add: query_eval_defs)
  show ?thesis using a b by blast
qed

theorem cascade_counterexample:
  "plans_of (ecs_new_query st_ex [table_of 1 [10]] [] q_fresh
               (sig_of [sig_column EcsCascade EcsOperAnd 12])) =
     [(1, [- 1], [12], [])]"
  by (simp add: query_eval_defs)


text \<open>
  Claim C10, as amended. For an \<open>Or\<close> column with source kind \<open>Container\<close> on a table
  all of whose parents have a record in the entity index: if \<open>p\<close> is the first parent, in
  the order of the table's type, whose table offers an alternative of the declared type,
  then \<open>components[k]\<close> is the alternative resolved from the type of \<open>p\<close>, in the loop
  body and in the matched table record that \<open>add_table\<close> leaves in the query. When that
  alternative is a component of non-zero element size and an entity holds it for \<open>p\<close>,
  the reference recorded for the column designates that holder: \<open>p\<close> itself when the
  alternative is an element of the type of \<open>p\<close>, otherwise the entity found through the
  prefab chain of \<open>p\<close>; the plan slot is the negative 1-based index of that reference,
  in the loop body and in the matched table record.
\<close>

theorem or_container_first_parent:
  assumes "sc_from column = EcsFromContainer" and "sc_op column = EcsOperOr"
    and "\<forall>q\<in>set (childof_parents st (ttype t)). get_entity st q \<noteq> None"
    and "filter (\<lambda>q. parent_alternative st (sc_type column) q \<noteq> 0)
           (childof_parents st (ttype t)) = p # rest"
    and "get_entity st p = Some (Some pty)"
    and "component = ecs_type_contains st pty (sc_type column) False True"
    and "holder = (if component \<in> set pty then p
                   else find_entity_in_prefabs st p pty component 0)"
    and "r = \<lparr>ref_entity = holder, ref_component = component,
              cached_ptr = get_ptr_intern st holder component\<rparr>"
  shows "(\<forall>s2. add_table_column st sys t c column (td, hr, watched) = Inr s2 \<longrightarrow>
            mt_components (fst s2) = (mt_components td)[c := component]) \<and>
         (\<forall>ws q ws' q' k.
            add_table st (ws, q) t = Inr (ws', q') \<and> system q = sys \<and>
            k < length (sig_columns (sig q)) \<and> sig_columns (sig q) ! k = column \<longrightarrow>
            (\<exists>m. tables q' = tables q @ [m] \<and> mt_components m ! k = component)) \<and>
         (p \<noteq> 0 \<and> component_size st component = Some sz \<and> sz \<noteq> 0 \<and> holder \<noteq> 0 \<longrightarrow>
            add_table_column st sys t c column (td, hr, watched) =
              Inr (td\<lparr>mt_columns := (mt_columns td)[c := - int (length (mt_references td) + 1)],
                      mt_components := (mt_components td)[c := component],
                      mt_references := mt_references td @ [r]\<rparr>,
                   True, watched @ [holder]) \<and>
            (\<forall>ws q ws' q' k.
               add_table st (ws, q) t = Inr (ws', q') \<and> system q = sys \<and>
               k < length (sig_columns (sig q)) \<and> sig_columns (sig q) ! k = column \<longrightarrow>
               (\<exists>m j. tables q' = tables q @ [m] \<and> mt_components m ! k = component \<and>
                      0 < j \<and> j \<le> length (mt_references m) \<and> mt_columns m ! k = - int j \<and>
                      mt_references m ! (j - 1) = r)))"
proof (intro conjI)
  have comp: "\<And>c td hr w s2. add_table_column st sys t c column (td, hr, w) = Inr s2 \<Longrightarrow>
                mt_components (fst s2) = (mt_components td)[c := component]"
    using assms(1-6) by (rule or_container_component)
  show "\<forall>s2. add_table_column st sys t c column (td, hr, watched) = Inr s2 \<longrightarrow>
            mt_components (fst s2) = (mt_components td)[c := component]"
    using comp by blast
  show "\<forall>ws q ws' q' k.
            add_table st (ws, q) t = Inr (ws', q') \<and> system q = sys \<and>
            k < length (sig_columns (sig q)) \<and> sig_columns (sig q) ! k = column \<longrightarrow>
            (\<exists>m. tables q' = tables q @ [m] \<and> mt_components m ! k = component)"
  proof (intro allI impI)
    fix ws q ws' q' k
    assume a: "add_table st (ws, q) t = Inr (ws', q') \<and> system q = sys \<and>
            k < length (sig_columns (sig q)) \<and> sig_columns (sig q) ! k = column"
    then have run: "add_table st (ws, q) t = Inr (ws', q')"
      and k: "k < length (sig_columns (sig q))" by simp_all
    have st': "\<And>td hr w s2.
        add_table_column st (system q) t k (sig_columns (sig q) ! k) (td, hr, w) = Inr s2 \<Longrightarrow>
          mt_components (fst s2) = (mt_components td)[k := component]"
      using a comp by simp
    show "\<exists>m. tables q' = tables q @ [m] \<and> mt_components m ! k = component"
      using run k st' by (rule add_table_component_slot)
  qed
  show "p \<noteq> 0 \<and> component_size st component = Some sz \<and> sz \<noteq> 0 \<and> holder \<noteq> 0 \<longrightarrow>
            add_table_column st sys t c column (td, hr, watched) =
              Inr (td\<lparr>mt_columns := (mt_columns td)[c := - int (length (mt_references td) + 1)],
                      mt_components := (mt_components td)[c := component],
                      mt_references := mt_references td @ [r]\<rparr>,
                   True, watched @ [holder]) \<and>
            (\<forall>ws q ws' q' k.
               add_table st (ws, q) t = Inr (ws', q') \<and> system q = sys \<and>
               k < length (sig_columns (sig q)) \<and> sig_columns (sig q) ! k = column \<longrightarrow>
               (\<exists>m j. tables q' = tables q @ [m] \<and> mt_components m ! k = component \<and>
                      0 < j \<and> j \<le> length (mt_references m) \<and> mt_columns m ! k = - int j \<and>
                      mt_references m ! (j - 1) = r))"
  proof (intro impI conjI)
    assume h: "p \<noteq> 0 \<and> component_size st component = Some sz \<and> sz \<noteq> 0 \<and> holder \<noteq> 0"
    then have h1: "p \<noteq> 0" and h2: "component_size st component = Some sz"
      and h3: "sz \<noteq> 0" and h4: "holder \<noteq> 0" by simp_all
    have step: "\<And>c td hr w. add_table_column st sys t c column (td, hr, w) =
           Inr (td\<lparr>mt_columns := (mt_columns td)[c := - int (length (mt_references td) + 1)],
                   mt_components := (mt_components td)[c := component],
                   mt_references := mt_references td @ [r]\<rparr>,
                True, w @ [holder])"
      unfolding assms(8) using assms(1-6) h1 h2 h3 assms(7) h4 by (rule or_container_column)
    show "add_table_column st sys t c column (td, hr, watched) =
              Inr (td\<lparr>mt_columns := (mt_columns td)[c := - int (length (mt_references td) + 1)],
                      mt_components := (mt_components td)[c := component],
                      mt_references := mt_references td @ [r]\<rparr>,
                   True, watched @ [holder])"
      by (rule step)
    show "\<forall>ws q ws' q' k.
               add_table st (ws, q) t = Inr (ws', q') \<and> system q = sys \<and>
               k < length (sig_columns (sig q)) \<and> sig_columns (sig q) ! k = column \<longrightarrow>
               (\<exists>m j. tables q' = tables q @ [m] \<and> mt_components m ! k = component \<and>
                      0 < j \<and> j \<le> length (mt_references m) \<and> mt_columns m ! k = - int j \<and>
                      mt_references m ! (j - 1) = r)"
    proof (intro allI impI)
      fix ws q ws' q' k
      assume a: "add_table st (ws, q) t = Inr (ws', q') \<and> system q = sys \<and>
            k < length (sig_columns (sig q)) \<and> sig_columns (sig q) ! k = column"
      then have run: "add_table st (ws, q) t = Inr (ws', q')"
        and k: "k < length (sig_columns (sig q))" by simp_all
      have st': "\<And>td hr w.
          add_table_column st (system q) t k (sig_columns (sig q) ! k) (td, hr, w) =
            Inr (td\<lparr>mt_columns := (mt_columns td)[k := - int (length (mt_references td) + 1)],
                    mt_components := (mt_components td)[k := component],
                    mt_references := mt_references td @ [r]\<rparr>, True,
                 (\<lambda>w. w @ [holder]) w)"
        using a step by simp
      show "\<exists>m j. tables q' = tables q @ [m] \<and> mt_components m ! k = component \<and>
                   0 < j \<and> j \<le> length (mt_references m) \<and> mt_columns m ! k = - int j \<and>
                   mt_references m ! (j - 1) = r"
        using run k st' by (rule add_table_reference_slot)
    qed
  qed
qed

theorem or_container_first_parent_witness:
  "add_table_column st_ex 0 (table_of 9 [CHILDOF_bit + 100, CHILDOF_bit + 101]) 0
     (sig_column_or EcsFromContainer [10, 11])
     (\<lparr>mt_table = table_of 9 [CHILDOF_bit + 100, CHILDOF_bit + 101], mt_columns = [7777],
       mt_components = [0], mt_references = []\<rparr>, False, []) =
   Inr (\<lparr>mt_table = table_of 9 [CHILDOF_bit + 100, CHILDOF_bit + 101], mt_columns = [- 1],
         mt_components = [11],
         mt_references = [\<lparr>ref_entity = 100, ref_component = 11, cached_ptr = Some 4096\<rparr>]\<rparr>,
        True, [100]) \<and>
   plans_of (ecs_new_query st_ex [table_of 9 [CHILDOF_bit + 100, CHILDOF_bit + 101]] [] q_fresh
               (sig_of [sig_column_or EcsFromContainer [10, 11]])) =
     [(9, [- 1], [11], [\<lparr>ref_entity = 100, ref_component = 11, cached_ptr = Some 4096\<rparr>])]"
proof -
  let ?t = "table_of 9 [CHILDOF_bit + 100, CHILDOF_bit + 101]"
  let ?col = "sig_column_or EcsFromContainer [10, 11]"
  have h1: "sc_from ?col = EcsFromContainer" and h2: "sc_op ?col = EcsOperOr"
    by (simp_all add: sig_column_or_def)
  have cp: "childof_parents st_ex (ttype ?t) = [100, 101]"
    by (simp add: childof_parents_def table_of_def st_ex_def CHILDOF_bit_def)
  have h3: "\<forall>q\<in>set (childof_parents st_ex (ttype ?t)). get_entity st_ex q \<noteq> None"
    unfolding cp by (simp add: st_ex_def)
  have h4: "filter (\<lambda>q. parent_alternative st_ex (sc_type ?col) q \<noteq> 0)
              (childof_parents st_ex (ttype ?t)) = 100 # [101]"
    unfolding cp
    by (simp add: parent_alternative_def sig_column_or_def st_ex_def ecs_type_contains_def
        type_holds_def INSTANCEOF_bit_def)
  have h5: "get_entity st_ex 100 = Some (Some [11, INSTANCEOF_bit + 201])"
    by (simp add: st_ex_def)
  have h6: "11 = ecs_type_contains st_ex [11, INSTANCEOF_bit + 201] (sc_type ?col) False True"
    by (simp add: sig_column_or_def st_ex_def ecs_type_contains_def type_holds_def
        INSTANCEOF_bit_def)
  have h7: "(100 :: ecs_entity_t) =
               (if (11 :: ecs_entity_t) \<in> set [11, INSTANCEOF_bit + 201] then 100
                else find_entity_in_prefabs st_ex 100 [11, INSTANCEOF_bit + 201] 11 0)"
    by simp
  have h8: "\<lparr>ref_entity = 100, ref_component = 11, cached_ptr = Some 4096\<rparr> =
               \<lparr>ref_entity = 100, ref_component = 11, cached_ptr = get_ptr_intern st_ex 100 11\<rparr>"
    by (simp add: st_ex_def)
  have g: "(100 :: ecs_entity_t) \<noteq> 0 \<and> component_size st_ex 11 = Some 8 \<and> (8 :: nat) \<noteq> 0 \<and>
           (100 :: ecs_entity_t) \<noteq> 0"
    by (simp add: st_ex_def)
  have a: "add_table_column st_ex 0 ?t 0 ?col
     (\<lparr>mt_table = ?t, mt_columns = [7777], mt_components = [0], mt_references = []\<rparr>, False, []) =
   Inr (\<lparr>mt_table = ?t, mt_columns = [- 1], mt_components = [11],
         mt_references = [\<lparr>ref_entity = 100, ref_component = 11, cached_ptr = Some 4096\<rparr>]\<rparr>,
        True, [100])"
    using or_container_first_parent [OF h1 h2 h3 h4 h5 h6 h7 h8,
        where sz = 8 and sys = 0 and c = 0 and hr = False and watched = "[]" and
          td = "\<lparr>mt_table = ?t, mt_columns = [7777], mt_components = [0],
                 mt_references = []\<rparr>"] g
    by simp
  have b: "plans_of (ecs_new_query st_ex [?t] [] q_fresh
               (sig_of [sig_column_or EcsFromContainer [10, 11]])) =
     [(9, [- 1], [11], [\<lparr>ref_entity = 100, ref_component = 11, cached_ptr = Some 4096\<rparr>])]"
    by (simp add: query_eval_defs)
  show ?thesis using a b by blast
qed

theorem or_container_counterexample:
  "plans_of (ecs_new_query st_ex [table_of 9 [CHILDOF_bit + 100, CHILDOF_bit + 101]] [] q_fresh
               (sig_of [sig_column_or EcsFromContainer [9, 11]])) =
     [(9, [- 1], [9], [\<lparr>ref_entity = 201, ref_component = 9, cached_ptr = Some 12288\<rparr>])]"
  by (simp add: query_eval_defs)


end
